theory Spec2Isabelle
  imports Complex_Main
begin

section \<open>Floating-point values with a missing-value marker\<close>

text \<open>
  The program computes on IEEE doubles held in pandas series. A value is modelled as
  not-a-number (the missing-value marker), an infinity, or a finite value. Finite values
  are idealised as real numbers: rounding, overflow to infinity and the sign of zero are
  not modelled. The special cases of each operation follow numpy: anything with a NaN
  operand is NaN, \<open>inf - inf\<close>, \<open>0 * inf\<close>, \<open>0 / 0\<close> and \<open>inf / inf\<close> are NaN, a
  nonzero value divided by zero is an infinity, the logarithm of zero is \<open>-inf\<close> and
  the logarithm or square root of a negative value is NaN.
\<close>

datatype float64 = NaN | NegInf | Fin real | PosInf

fun isnan :: "float64 \<Rightarrow> bool" where
  "isnan NaN = True"
| "isnan _ = False"

fun fneg :: "float64 \<Rightarrow> float64" where
  "fneg NaN = NaN"
| "fneg NegInf = PosInf"
| "fneg PosInf = NegInf"
| "fneg (Fin x) = Fin (- x)"

fun fadd :: "float64 \<Rightarrow> float64 \<Rightarrow> float64" where
  "fadd NaN _ = NaN"
| "fadd _ NaN = NaN"
| "fadd (Fin x) (Fin y) = Fin (x + y)"
| "fadd PosInf NegInf = NaN"
| "fadd NegInf PosInf = NaN"
| "fadd PosInf _ = PosInf"
| "fadd NegInf _ = NegInf"
| "fadd (Fin x) y = y"

definition fsub :: "float64 \<Rightarrow> float64 \<Rightarrow> float64" where
  "fsub x y = fadd x (fneg y)"

text \<open>The sign of a value: \<open>-1\<close>, \<open>0\<close> or \<open>1\<close>; not used on NaN.\<close>

fun fsign :: "float64 \<Rightarrow> int" where
  "fsign NaN = 0"
| "fsign NegInf = - 1"
| "fsign PosInf = 1"
| "fsign (Fin x) = (if x < 0 then - 1 else if x = 0 then 0 else 1)"

fun fmul :: "float64 \<Rightarrow> float64 \<Rightarrow> float64" where
  "fmul NaN _ = NaN"
| "fmul _ NaN = NaN"
| "fmul (Fin x) (Fin y) = Fin (x * y)"
| "fmul x y =
     (if fsign x * fsign y = 0 then NaN
      else if fsign x * fsign y < 0 then NegInf else PosInf)"

fun fdiv :: "float64 \<Rightarrow> float64 \<Rightarrow> float64" where
  "fdiv NaN _ = NaN"
| "fdiv _ NaN = NaN"
| "fdiv (Fin x) (Fin y) =
     (if y \<noteq> 0 then Fin (x / y)
      else if x = 0 then NaN else if x < 0 then NegInf else PosInf)"
| "fdiv (Fin x) _ = Fin 0"
| "fdiv x (Fin y) =
     (if (fsign x < 0) = (y < 0) then PosInf else NegInf)"
| "fdiv _ _ = NaN"

fun flog :: "float64 \<Rightarrow> float64" where
  "flog NaN = NaN"
| "flog NegInf = NaN"
| "flog PosInf = PosInf"
| "flog (Fin x) = (if x < 0 then NaN else if x = 0 then NegInf else Fin (ln x))"

fun fsqrt :: "float64 \<Rightarrow> float64" where
  "fsqrt NaN = NaN"
| "fsqrt NegInf = NaN"
| "fsqrt PosInf = PosInf"
| "fsqrt (Fin x) = (if x < 0 then NaN else Fin (sqrt x))"

text \<open>The comparison \<open>x > 0\<close>; false on NaN.\<close>

fun fpos :: "float64 \<Rightarrow> bool" where
  "fpos PosInf = True"
| "fpos (Fin x) = (0 < x)"
| "fpos _ = False"

text \<open>\<open>x ** 2\<close> on a series element.\<close>

definition fsquare :: "float64 \<Rightarrow> float64" where
  "fsquare x = fmul x x"

section \<open>Series and the price frame\<close>

text \<open>
  A pandas series is a list of rows, each an index label and a value. Index labels are
  timestamps, counted in nanoseconds as integers. Of the price frame only the column
  \<open>Close\<close> is read, so the frame is modelled as that series.
\<close>

type_synonym series = "(int \<times> float64) list"

definition index_of :: "series \<Rightarrow> int list" where
  "index_of s = map fst s"

definition values_of :: "series \<Rightarrow> float64 list" where
  "values_of s = map snd s"

text \<open>\<open>shift(1)\<close>: every value moves one row down, the first row becomes NaN.\<close>

definition shift1 :: "float64 list \<Rightarrow> float64 list" where
  "shift1 xs = take (length xs) (NaN # xs)"

text \<open>\<open>log(Close / Close.shift(1))\<close>, row by row.\<close>

definition log_return_values :: "float64 list \<Rightarrow> float64 list" where
  "log_return_values closes = map (\<lambda>(c, p). flog (fdiv c p)) (zip closes (shift1 closes))"

definition dropna :: "series \<Rightarrow> series" where
  "dropna s = filter (\<lambda>(t, v). \<not> isnan v) s"

section \<open>EWMA.py\<close>

datatype error =
    KeyError string
  | ValueError string
  | TypeError string
  | OverflowError string
  | OutOfBoundsTimedelta
  | OutOfBoundsDatetime

text \<open>
  One pass of the loop body at index \<open>i\<close>: the slot \<open>i\<close> of \<open>ewma_var\<close> is
  overwritten when the previous squared return and the previous variance are both not
  NaN, and is left as it is otherwise.
\<close>

definition ewma_step :: "float64 \<Rightarrow> float64 list \<Rightarrow> nat \<Rightarrow> float64 list \<Rightarrow> float64 list" where
  "ewma_step lambda_param squared_returns i ewma_var =
     (if \<not> isnan (squared_returns ! (i - 1)) \<and> \<not> isnan (ewma_var ! (i - 1))
      then ewma_var[i := fadd (fmul lambda_param (ewma_var ! (i - 1)))
                              (fmul (fsub (Fin 1) lambda_param) (squared_returns ! i))]
      else ewma_var)"

text \<open>
  \<open>ewma_var = squared_returns.copy()\<close> followed by the loop over
  \<open>range(1, len(squared_returns))\<close>.
\<close>

definition ewma_scan :: "float64 \<Rightarrow> float64 list \<Rightarrow> float64 list" where
  "ewma_scan lambda_param squared_returns =
     fold (ewma_step lambda_param squared_returns) [1 ..< length squared_returns] squared_returns"

definition squared_returns_of :: "series \<Rightarrow> float64 list" where
  "squared_returns_of price_data = map fsquare (log_return_values (values_of price_data))"

text \<open>
  \<open>math.sqrt\<close> of an integer first converts it to a double and raises
  \<open>OverflowError\<close> when the integer, rounded to the nearest double, is beyond the
  largest one; that is so from \<open>2^1024 - 2^970\<close> on, for both signs. On a negative
  argument it then raises \<open>ValueError\<close>.
\<close>

definition double_limit :: int where
  "double_limit = 2 ^ 1024 - 2 ^ 970"

definition math_sqrt :: "int \<Rightarrow> error + float64" where
  "math_sqrt n =
     (if double_limit \<le> \<bar>n\<bar> then Inl (OverflowError ''int too large to convert to float'')
      else if n < 0 then Inl (ValueError ''math domain error'')
      else Inr (Fin (sqrt (real_of_int n))))"

definition get_estimator :: "series \<Rightarrow> float64 \<Rightarrow> int \<Rightarrow> bool \<Rightarrow> error + series" where
  "get_estimator price_data lambda_param trading_periods clean =
     (let squared_returns = squared_returns_of price_data;
          ewma_var = ewma_scan lambda_param squared_returns;
          roots = map fsqrt ewma_var
      in case math_sqrt trading_periods of
           Inl e \<Rightarrow> Inl e
         | Inr f \<Rightarrow>
             (let result = zip (index_of price_data) (map (\<lambda>v. fmul v f) roots)
              in if clean then Inr (dropna result) else Inr result))"

section \<open>MacroEventAnalyzer.py\<close>

record analyzer =
  price_data :: series
  volatility :: series

definition init_analyzer :: "series \<Rightarrow> series \<Rightarrow> analyzer" where
  "init_analyzer price_data_arg volatility_series =
     \<lparr>price_data = price_data_arg, volatility = volatility_series\<rparr>"

definition calculate_log_returns :: "analyzer \<Rightarrow> series" where
  "calculate_log_returns self =
     zip (index_of (price_data self)) (log_return_values (values_of (price_data self)))"

text \<open>
  The sum of a float array, and the pandas reductions \<open>std\<close> (sample standard
  deviation, one degree of freedom removed) and \<open>mean\<close>. Both reductions skip NaN
  entries and give NaN when too few entries are left.
\<close>

definition fsum :: "float64 list \<Rightarrow> float64" where
  "fsum xs = fold (\<lambda>x acc. fadd acc x) xs (Fin 0)"

definition series_std :: "float64 list \<Rightarrow> float64" where
  "series_std vs =
     (let valid = filter (\<lambda>v. \<not> isnan v) vs;
          cnt = length valid
      in if cnt \<le> 1 then NaN
         else (let avg = fdiv (fsum valid) (Fin (real cnt));
                   sqr = map (\<lambda>v. fsquare (fsub avg v)) valid
               in fsqrt (fdiv (fsum sqr) (Fin (real (cnt - 1))))))"

definition series_mean :: "float64 list \<Rightarrow> float64" where
  "series_mean vs =
     (let valid = filter (\<lambda>v. \<not> isnan v) vs;
          cnt = length valid
      in if cnt > 0 then fdiv (fsum valid) (Fin (real cnt)) else NaN)"

definition realized_volatility_window :: "analyzer \<Rightarrow> int \<Rightarrow> int \<Rightarrow> float64" where
  "realized_volatility_window self start_date end_date =
     (let log_returns =
            filter (\<lambda>(t, r). start_date \<le> t \<and> t \<le> end_date) (calculate_log_returns self)
      in if length log_returns < 2 then NaN
         else fmul (series_std (values_of log_returns)) (Fin (sqrt 252)))"

text \<open>
  An event is a dictionary; the keys the program reads are \<open>date\<close>, \<open>name\<close> and
  \<open>type\<close>, each of which may be absent. The date is held as the timestamp that
  \<open>pd.to_datetime\<close> gives for it. The value under \<open>type\<close> is a string or
  \<open>None\<close>: a key that is present with the value \<open>None\<close> is not a missing key, and
  \<open>get\<close> returns the \<open>None\<close>.
\<close>

datatype label = Str string | PyNone

record event =
  ev_date :: "int option"
  ev_name :: "string option"
  ev_type :: "label option"

record impact =
  event_date :: int
  event_name :: string
  event_type :: label
  pre_volatility :: float64
  post_volatility :: float64
  volatility_change :: float64
  volatility_change_pct :: float64
  pre_window_days :: int
  post_window_days :: int

text \<open>
  \<open>timedelta(days=n)\<close> in nanoseconds. The constructor raises \<open>OverflowError\<close> for
  more than 999999999 days in either direction.
\<close>

definition timedelta_days :: "int \<Rightarrow> error + int" where
  "timedelta_days n =
     (if 999999999 < \<bar>n\<bar> then Inl (OverflowError ''days; must have magnitude <= 999999999'')
      else Inr (n * 86400000000000))"

text \<open>
  A timestamp plus a \<open>timedelta\<close>. The library turns the \<open>timedelta\<close> into its own
  duration, a signed 64-bit count of microseconds, and raises \<open>OutOfBoundsTimedelta\<close>
  when the count does not fit, which is so from 106751992 days on; the sum is a count of
  the same width and raises \<open>OutOfBoundsDatetime\<close> when it does not fit. In nanoseconds
  the largest magnitude of such a count is \<open>(2^63 - 1) * 1000\<close>. A timestamp minus a
  \<open>timedelta\<close> is the timestamp plus the negated \<open>timedelta\<close>.
\<close>

definition count_limit :: int where
  "count_limit = 9223372036854775807000"

definition timestamp_add :: "int \<Rightarrow> int \<Rightarrow> error + int" where
  "timestamp_add t delta =
     (if count_limit < \<bar>delta\<bar> then Inl OutOfBoundsTimedelta
      else if count_limit < \<bar>t + delta\<bar> then Inl OutOfBoundsDatetime
      else Inr (t + delta))"

text \<open>
  The two ends of the windows of an event, \<open>pre_start\<close> and \<open>post_end\<close>, in the
  order in which the loop body computes them.
\<close>

definition window_ends :: "int \<Rightarrow> int \<Rightarrow> int \<Rightarrow> error + int \<times> int" where
  "window_ends d pre_days post_days =
     (case timedelta_days pre_days of
        Inl e \<Rightarrow> Inl e
      | Inr pre_delta \<Rightarrow>
          (case timestamp_add d (- pre_delta) of
             Inl e \<Rightarrow> Inl e
           | Inr pre_start \<Rightarrow>
               (case timedelta_days post_days of
                  Inl e \<Rightarrow> Inl e
                | Inr post_delta \<Rightarrow>
                    (case timestamp_add d post_delta of
                       Inl e \<Rightarrow> Inl e
                     | Inr post_end \<Rightarrow> Inr (pre_start, post_end)))))"

text \<open>
  The body of the loop over the events: one record, or the \<open>KeyError\<close> of a missing
  key, or the error of a window end out of range.
\<close>

definition impact_of_event :: "analyzer \<Rightarrow> int \<Rightarrow> int \<Rightarrow> event \<Rightarrow> error + impact" where
  "impact_of_event self pre_days post_days ev =
     (case ev_date ev of
        None \<Rightarrow> Inl (KeyError ''date'')
      | Some d \<Rightarrow>
          (case window_ends d pre_days post_days of
             Inl e \<Rightarrow> Inl e
           | Inr (pre_start, post_end) \<Rightarrow>
               (let pre_vol = realized_volatility_window self pre_start d;
                    post_vol = realized_volatility_window self d post_end;
                    vol_change = fsub post_vol pre_vol;
                    vol_change_pct =
                      (if pre_vol \<noteq> Fin 0 then fmul (fdiv vol_change pre_vol) (Fin 100)
                       else NaN)
                in case ev_name ev of
                     None \<Rightarrow> Inl (KeyError ''name'')
                   | Some n \<Rightarrow>
                       Inr \<lparr>event_date = d,
                            event_name = n,
                            event_type =
                              (case ev_type ev of None \<Rightarrow> Str ''unknown'' | Some ty \<Rightarrow> ty),
                            pre_volatility = pre_vol,
                            post_volatility = post_vol,
                            volatility_change = vol_change,
                            volatility_change_pct = vol_change_pct,
                            pre_window_days = pre_days,
                            post_window_days = post_days\<rparr>)))"

fun collect_impacts :: "analyzer \<Rightarrow> int \<Rightarrow> int \<Rightarrow> event list \<Rightarrow> impact list \<Rightarrow> error + impact list" where
  "collect_impacts self pre_days post_days [] results = Inr results"
| "collect_impacts self pre_days post_days (ev # evs) results =
     (case impact_of_event self pre_days post_days ev of
        Inl e \<Rightarrow> Inl e
      | Inr r \<Rightarrow> collect_impacts self pre_days post_days evs (results @ [r]))"

text \<open>
  \<open>pd.DataFrame(results).sort_values('event_date')\<close>: a frame built from an empty list
  has no columns, so sorting it by a column name raises \<open>KeyError\<close>. The order that the
  library gives to rows of equal date is not fixed by it; the model keeps them in input
  order.
\<close>

definition sort_values_event_date :: "impact list \<Rightarrow> error + impact list" where
  "sort_values_event_date results =
     (if results = [] then Inl (KeyError ''event_date'')
      else Inr (sort_key event_date results))"

definition event_impact_analysis :: "analyzer \<Rightarrow> event list \<Rightarrow> int \<Rightarrow> int \<Rightarrow> error + impact list" where
  "event_impact_analysis self events pre_days post_days =
     (case collect_impacts self pre_days post_days events [] of
        Inl e \<Rightarrow> Inl e
      | Inr results \<Rightarrow> sort_values_event_date results)"

record type_summary =
  count :: nat
  avg_pre_vol :: float64
  avg_post_vol :: float64
  avg_vol_change :: float64
  avg_vol_change_pct :: float64
  vol_increase_frequency :: float64

text \<open>\<open>unique()\<close>: the distinct values in order of first appearance.\<close>

fun unique :: "'a list \<Rightarrow> 'a list" where
  "unique [] = []"
| "unique (x # xs) = x # unique (filter (\<lambda>y. y \<noteq> x) xs)"

definition summarize :: "impact list \<Rightarrow> type_summary" where
  "summarize sub =
     \<lparr>count = length sub,
      avg_pre_vol = series_mean (map pre_volatility sub),
      avg_post_vol = series_mean (map post_volatility sub),
      avg_vol_change = series_mean (map volatility_change sub),
      avg_vol_change_pct = series_mean (map volatility_change_pct sub),
      vol_increase_frequency =
        fdiv (Fin (real (length (filter (\<lambda>r. fpos (volatility_change r)) sub))))
             (Fin (real (length sub)))\<rparr>"

text \<open>
  \<open>column == value\<close>, row by row: two strings are compared, and a comparison with
  \<open>None\<close> on either side is false, also of \<open>None\<close> with \<open>None\<close>.
\<close>

fun label_eq :: "label \<Rightarrow> label \<Rightarrow> bool" where
  "label_eq (Str a) (Str b) = (a = b)"
| "label_eq _ _ = False"

text \<open>
  The loop over \<open>unique()\<close> of the column \<open>event_type\<close>, in which \<open>None\<close> is a
  value like any other, filling the dictionary \<open>summary\<close>.
\<close>

definition event_summary_statistics :: "impact list \<Rightarrow> (label \<rightharpoonup> type_summary)" where
  "event_summary_statistics event_impacts_df =
     fold (\<lambda>ty summary.
             summary(ty \<mapsto> summarize (filter (\<lambda>r. label_eq (event_type r) ty) event_impacts_df)))
          (unique (map event_type event_impacts_df))
          Map.empty"

section \<open>Objects and references\<close>

text \<open>
  To follow which objects an operation writes to, the operations are given a second time
  over an explicit store. An object lives at an address; a variable or an attribute holds
  the address. Creating an object (a new series out of an arithmetic operation, a
  \<open>copy()\<close>, an empty list or dictionary) takes the next free address; an assignment
  through \<open>iloc\<close>, an \<open>append\<close> and a dictionary assignment overwrite the object at
  an address.
\<close>

type_synonym addr = nat

datatype obj =
    SeriesObj series
  | EventsObj "event list"
  | FrameObj "impact list"
  | SummaryObj "label \<rightharpoonup> type_summary"

type_synonym store = "obj list"

definition new :: "obj \<Rightarrow> store \<Rightarrow> addr \<times> store" where
  "new x s = (length s, s @ [x])"

definition series_at :: "store \<Rightarrow> addr \<Rightarrow> series option" where
  "series_at s a =
     (if a < length s then (case s ! a of SeriesObj xs \<Rightarrow> Some xs | _ \<Rightarrow> None) else None)"

definition events_at :: "store \<Rightarrow> addr \<Rightarrow> event list option" where
  "events_at s a =
     (if a < length s then (case s ! a of EventsObj xs \<Rightarrow> Some xs | _ \<Rightarrow> None) else None)"

definition frame_at :: "store \<Rightarrow> addr \<Rightarrow> impact list option" where
  "frame_at s a =
     (if a < length s then (case s ! a of FrameObj xs \<Rightarrow> Some xs | _ \<Rightarrow> None) else None)"

definition summary_at :: "store \<Rightarrow> addr \<Rightarrow> (label \<rightharpoonup> type_summary) option" where
  "summary_at s a =
     (if a < length s then (case s ! a of SummaryObj m \<Rightarrow> Some m | _ \<Rightarrow> None) else None)"

text \<open>
  Reading a local variable that the operation itself has bound to a series, to a list of
  records or to a dictionary.
\<close>

definition the_series :: "store \<Rightarrow> addr \<Rightarrow> series" where
  "the_series s a = (case series_at s a of Some xs \<Rightarrow> xs | None \<Rightarrow> [])"

definition the_frame :: "store \<Rightarrow> addr \<Rightarrow> impact list" where
  "the_frame s a = (case frame_at s a of Some xs \<Rightarrow> xs | None \<Rightarrow> [])"

definition the_summary :: "store \<Rightarrow> addr \<Rightarrow> (label \<rightharpoonup> type_summary)" where
  "the_summary s a = (case summary_at s a of Some m \<Rightarrow> m | None \<Rightarrow> Map.empty)"

text \<open>\<open>ser.iloc[i] = v\<close>, \<open>results.append(r)\<close> and \<open>summary[ty] = g\<close>.\<close>

definition iloc_set :: "addr \<Rightarrow> nat \<Rightarrow> float64 \<Rightarrow> store \<Rightarrow> store" where
  "iloc_set a i v s =
     s[a := SeriesObj (zip (index_of (the_series s a)) ((values_of (the_series s a))[i := v]))]"

definition append_record :: "addr \<Rightarrow> impact \<Rightarrow> store \<Rightarrow> store" where
  "append_record a r s = s[a := FrameObj (the_frame s a @ [r])]"

definition summary_set :: "addr \<Rightarrow> label \<Rightarrow> type_summary \<Rightarrow> store \<Rightarrow> store" where
  "summary_set a ty g s = s[a := SummaryObj ((the_summary s a)(ty \<mapsto> g))]"

subsection \<open>EWMA.py over the store\<close>

definition ewma_step_st :: "float64 \<Rightarrow> addr \<Rightarrow> addr \<Rightarrow> nat \<Rightarrow> store \<Rightarrow> store" where
  "ewma_step_st lambda_param squared_returns ewma_var i s =
     (if \<not> isnan (values_of (the_series s squared_returns) ! (i - 1)) \<and>
         \<not> isnan (values_of (the_series s ewma_var) ! (i - 1))
      then iloc_set ewma_var i
             (fadd (fmul lambda_param (values_of (the_series s ewma_var) ! (i - 1)))
                   (fmul (fsub (Fin 1) lambda_param) (values_of (the_series s squared_returns) ! i))) s
      else s)"

definition get_estimator_st ::
  "addr \<Rightarrow> float64 \<Rightarrow> int \<Rightarrow> bool \<Rightarrow> store \<Rightarrow> (error + addr) \<times> store" where
  "get_estimator_st price_data_ref lambda_param trading_periods clean s =
     (case series_at s price_data_ref of
        None \<Rightarrow> (Inl (TypeError ''price_data''), s)
      | Some closes \<Rightarrow>
          (let (log_return, s1) =
                 new (SeriesObj (zip (index_of closes) (log_return_values (values_of closes)))) s;
               (squared_returns, s2) =
                 new (SeriesObj (zip (index_of (the_series s1 log_return))
                                     (map fsquare (values_of (the_series s1 log_return))))) s1;
               (ewma_var, s3) = new (SeriesObj (the_series s2 squared_returns)) s2;
               s4 = fold (ewma_step_st lambda_param squared_returns ewma_var)
                         [1 ..< length (the_series s3 squared_returns)] s3;
               (roots, s5) =
                 new (SeriesObj (zip (index_of (the_series s4 ewma_var))
                                     (map fsqrt (values_of (the_series s4 ewma_var))))) s4
           in case math_sqrt trading_periods of
                Inl e \<Rightarrow> (Inl e, s5)
              | Inr f \<Rightarrow>
                  (let (result, s6) =
                         new (SeriesObj (zip (index_of (the_series s5 roots))
                                             (map (\<lambda>v. fmul v f) (values_of (the_series s5 roots))))) s5
                   in if clean
                      then (let (cleaned, s7) = new (SeriesObj (dropna (the_series s6 result))) s6
                            in (Inr cleaned, s7))
                      else (Inr result, s6))))"

subsection \<open>MacroEventAnalyzer.py over the store\<close>

text \<open>The analyzer object holds the two references it was constructed with.\<close>

record analyzer_ref =
  price_data_ref :: addr
  volatility_ref :: addr

definition init_analyzer_st :: "addr \<Rightarrow> addr \<Rightarrow> analyzer_ref" where
  "init_analyzer_st price_data_arg volatility_series =
     \<lparr>price_data_ref = price_data_arg, volatility_ref = volatility_series\<rparr>"

definition calculate_log_returns_st :: "analyzer_ref \<Rightarrow> store \<Rightarrow> (error + addr) \<times> store" where
  "calculate_log_returns_st self s =
     (case series_at s (price_data_ref self) of
        None \<Rightarrow> (Inl (TypeError ''price_data''), s)
      | Some closes \<Rightarrow>
          (let (log_returns, s1) =
                 new (SeriesObj (zip (index_of closes) (log_return_values (values_of closes)))) s
           in (Inr log_returns, s1)))"

definition realized_volatility_window_st ::
  "analyzer_ref \<Rightarrow> int \<Rightarrow> int \<Rightarrow> store \<Rightarrow> (error + float64) \<times> store" where
  "realized_volatility_window_st self start_date end_date s =
     (case calculate_log_returns_st self s of
        (Inl e, s1) \<Rightarrow> (Inl e, s1)
      | (Inr all_returns, s1) \<Rightarrow>
          (let (log_returns, s2) =
                 new (SeriesObj (filter (\<lambda>(t, r). start_date \<le> t \<and> t \<le> end_date)
                                        (the_series s1 all_returns))) s1
           in if length (the_series s2 log_returns) < 2 then (Inr NaN, s2)
              else (Inr (fmul (series_std (values_of (the_series s2 log_returns))) (Fin (sqrt 252))),
                    s2)))"

definition impact_of_event_st ::
  "analyzer_ref \<Rightarrow> int \<Rightarrow> int \<Rightarrow> event \<Rightarrow> store \<Rightarrow> (error + impact) \<times> store" where
  "impact_of_event_st self pre_days post_days ev s =
     (case ev_date ev of
        None \<Rightarrow> (Inl (KeyError ''date''), s)
      | Some d \<Rightarrow>
          (case window_ends d pre_days post_days of
             Inl e \<Rightarrow> (Inl e, s)
           | Inr (pre_start, post_end) \<Rightarrow>
          (case realized_volatility_window_st self pre_start d s of
             (Inl e, s1) \<Rightarrow> (Inl e, s1)
           | (Inr pre_vol, s1) \<Rightarrow>
               (case realized_volatility_window_st self d post_end s1 of
                  (Inl e, s2) \<Rightarrow> (Inl e, s2)
                | (Inr post_vol, s2) \<Rightarrow>
                    (let vol_change = fsub post_vol pre_vol;
                         vol_change_pct =
                           (if pre_vol \<noteq> Fin 0 then fmul (fdiv vol_change pre_vol) (Fin 100)
                            else NaN)
                     in case ev_name ev of
                          None \<Rightarrow> (Inl (KeyError ''name''), s2)
                        | Some n \<Rightarrow>
                            (Inr \<lparr>event_date = d,
                                  event_name = n,
                                  event_type =
                                    (case ev_type ev of None \<Rightarrow> Str ''unknown'' | Some ty \<Rightarrow> ty),
                                  pre_volatility = pre_vol,
                                  post_volatility = post_vol,
                                  volatility_change = vol_change,
                                  volatility_change_pct = vol_change_pct,
                                  pre_window_days = pre_days,
                                  post_window_days = post_days\<rparr>, s2))))))"

fun collect_impacts_st ::
  "analyzer_ref \<Rightarrow> int \<Rightarrow> int \<Rightarrow> event list \<Rightarrow> addr \<Rightarrow> store \<Rightarrow> error option \<times> store" where
  "collect_impacts_st self pre_days post_days [] results s = (None, s)"
| "collect_impacts_st self pre_days post_days (ev # evs) results s =
     (case impact_of_event_st self pre_days post_days ev s of
        (Inl e, s1) \<Rightarrow> (Some e, s1)
      | (Inr r, s1) \<Rightarrow>
          collect_impacts_st self pre_days post_days evs results (append_record results r s1))"

definition event_impact_analysis_st ::
  "analyzer_ref \<Rightarrow> addr \<Rightarrow> int \<Rightarrow> int \<Rightarrow> store \<Rightarrow> (error + addr) \<times> store" where
  "event_impact_analysis_st self events pre_days post_days s =
     (case events_at s events of
        None \<Rightarrow> (Inl (TypeError ''events''), s)
      | Some evs \<Rightarrow>
          (let (results, s1) = new (FrameObj []) s
           in case collect_impacts_st self pre_days post_days evs results s1 of
                (Some e, s2) \<Rightarrow> (Inl e, s2)
              | (None, s2) \<Rightarrow>
                  (case sort_values_event_date (the_frame s2 results) of
                     Inl e \<Rightarrow> (Inl e, s2)
                   | Inr sorted_rows \<Rightarrow>
                       (let (df, s3) = new (FrameObj sorted_rows) s2 in (Inr df, s3)))))"

definition event_summary_statistics_st ::
  "analyzer_ref \<Rightarrow> addr \<Rightarrow> store \<Rightarrow> (error + addr) \<times> store" where
  "event_summary_statistics_st self event_impacts_df s =
     (case frame_at s event_impacts_df of
        None \<Rightarrow> (Inl (TypeError ''event_impacts_df''), s)
      | Some rows \<Rightarrow>
          (let (summary, s1) = new (SummaryObj Map.empty) s;
               s2 = fold (\<lambda>ty st.
                            summary_set summary ty
                              (summarize (filter (\<lambda>r. label_eq (event_type r) ty)
                                                 (the_frame st event_impacts_df))) st)
                         (unique (map event_type rows)) s1
           in (Inr summary, s2)))"

section \<open>Auxiliary notions for the proofs\<close>

text \<open>The scan stopped before index \<open>k\<close>, and the recurrence at one index.\<close>

definition ewma_upto :: "float64 \<Rightarrow> float64 list \<Rightarrow> nat \<Rightarrow> float64 list" where
  "ewma_upto lam sq k = fold (ewma_step lam sq) [1 ..< k] sq"

definition ewma_rec :: "float64 \<Rightarrow> float64 list \<Rightarrow> float64 list \<Rightarrow> nat \<Rightarrow> bool" where
  "ewma_rec lam sq var t \<longleftrightarrow>
     var ! t = (if 0 < t \<and> \<not> isnan (sq ! (t - 1)) \<and> \<not> isnan (var ! (t - 1))
                then fadd (fmul lam (var ! (t - 1))) (fmul (fsub (Fin 1) lam) (sq ! t))
                else sq ! t)"

text \<open>
  The store \<open>s'\<close> keeps the first \<open>n\<close> objects of the store \<open>s\<close> and has lost no
  address.
\<close>

definition keeps :: "nat \<Rightarrow> store \<Rightarrow> store \<Rightarrow> bool" where
  "keeps n s s' \<longleftrightarrow> length s \<le> length s' \<and> take n s' = take n s"

text \<open>
  The range in which every version of the date library works: durations and timestamps
  that fit a signed 64-bit count of nanoseconds, for the date of an event at \<open>d\<close>, its
  two durations and its two window ends.
\<close>

definition nanosecond_range :: "int \<Rightarrow> bool" where
  "nanosecond_range x \<longleftrightarrow> \<bar>x\<bar> \<le> 9223372036854775807"

definition windows_in_range :: "int \<Rightarrow> int \<Rightarrow> int \<Rightarrow> bool" where
  "windows_in_range d pre_days post_days \<longleftrightarrow>
     nanosecond_range d \<and>
     nanosecond_range (pre_days * 86400000000000) \<and>
     nanosecond_range (post_days * 86400000000000) \<and>
     nanosecond_range (d - pre_days * 86400000000000) \<and>
     nanosecond_range (d + post_days * 86400000000000)"

text \<open>
  The mean in the words of the specification: missing values are ignored, and a group
  with nothing but missing values has a missing mean.
\<close>

definition mean_ignoring_missing :: "float64 list \<Rightarrow> float64" where
  "mean_ignoring_missing vs =
     (if list_all isnan vs then NaN
      else fdiv (fsum (filter (\<lambda>v. \<not> isnan v) vs))
                (Fin (real (length (filter (\<lambda>v. \<not> isnan v) vs)))))"

section \<open>The scan of the EWMA estimator\<close>

lemma length_ewma_step: "length (ewma_step lam sq i var) = length var"
  by (simp add: ewma_step_def)

lemma length_fold_ewma: "length (fold (ewma_step lam sq) is var) = length var"
  by (induction "is" arbitrary: var) (simp_all add: length_ewma_step)

lemma ewma_upto_Suc: "1 \<le> k \<Longrightarrow> ewma_upto lam sq (Suc k) = ewma_step lam sq k (ewma_upto lam sq k)"
  by (simp add: ewma_upto_def)

lemma ewma_upto_inv:
  "1 \<le> k \<Longrightarrow> k \<le> length sq \<Longrightarrow>
     (\<forall>t<k. ewma_rec lam sq (ewma_upto lam sq k) t) \<and>
     (\<forall>t. k \<le> t \<longrightarrow> t < length sq \<longrightarrow> ewma_upto lam sq k ! t = sq ! t)"
proof (induction k rule: nat_induct_at_least)
  case base
  show ?case by (simp add: ewma_upto_def ewma_rec_def)
next
  case (Suc k)
  let ?v = "ewma_upto lam sq k"
  have len: "length ?v = length sq" by (simp add: ewma_upto_def length_fold_ewma)
  from Suc have k: "k < length sq" and old: "\<forall>t<k. ewma_rec lam sq ?v t"
    and rest: "\<forall>t. k \<le> t \<longrightarrow> t < length sq \<longrightarrow> ?v ! t = sq ! t" by simp_all
  have step: "ewma_upto lam sq (Suc k) = ewma_step lam sq k ?v"
    using Suc.hyps by (rule ewma_upto_Suc)
  have lower: "ewma_step lam sq k ?v ! t = ?v ! t" if "t \<noteq> k" for t
    using that by (simp add: ewma_step_def)
  have "ewma_rec lam sq (ewma_step lam sq k ?v) t" if "t < Suc k" for t
  proof (cases "t = k")
    case False
    with that have "t < k" by simp
    with old have "ewma_rec lam sq ?v t" by simp
    moreover have "ewma_step lam sq k ?v ! t = ?v ! t" using False by (rule lower)
    moreover have "ewma_step lam sq k ?v ! (t - 1) = ?v ! (t - 1)"
      using \<open>t < k\<close> by (intro lower) simp
    ultimately show ?thesis by (simp add: ewma_rec_def)
  next
    case True
    have prev: "ewma_step lam sq k ?v ! (k - 1) = ?v ! (k - 1)"
      using Suc.hyps by (intro lower) simp
    have cur: "?v ! k = sq ! k" using rest k by simp
    show ?thesis
      unfolding True ewma_rec_def prev
      using Suc.hyps k len cur by (simp add: ewma_step_def)
  qed
  moreover have "ewma_step lam sq k ?v ! t = sq ! t" if "Suc k \<le> t" "t < length sq" for t
    using that rest lower[of t] by simp
  ultimately show ?case unfolding step by blast
qed

lemma ewma_scan_rec: "t < length sq \<Longrightarrow> ewma_rec lam sq (ewma_scan lam sq) t"
proof -
  assume t: "t < length sq"
  then have "1 \<le> length sq" by simp
  from ewma_upto_inv[OF this order_refl, of lam] t
  show ?thesis by (simp add: ewma_upto_def ewma_scan_def)
qed

section \<open>The event loop\<close>

lemma collect_impacts_acc:
  "collect_impacts self pre post evs acc = Inr rs \<Longrightarrow>
     \<exists>new. rs = acc @ new \<and> length new = length evs \<and>
       list_all2 (\<lambda>ev r. impact_of_event self pre post ev = Inr r) evs new"
proof (induction evs arbitrary: acc)
  case Nil
  then show ?case by simp
next
  case (Cons ev evs)
  from Cons.prems obtain r where r: "impact_of_event self pre post ev = Inr r"
    and rest: "collect_impacts self pre post evs (acc @ [r]) = Inr rs"
    by (auto split: sum.splits)
  from Cons.IH[OF rest] obtain new where "rs = (acc @ [r]) @ new" "length new = length evs"
    "list_all2 (\<lambda>ev r. impact_of_event self pre post ev = Inr r) evs new" by blast
  then have "rs = acc @ (r # new) \<and> length (r # new) = length (ev # evs) \<and>
    list_all2 (\<lambda>ev r. impact_of_event self pre post ev = Inr r) (ev # evs) (r # new)"
    using r by simp
  then show ?case by blast
qed

lemma window_ends_Inr:
  "window_ends d pre post = Inr (a, b) \<Longrightarrow>
     a = d - pre * 86400000000000 \<and> b = d + post * 86400000000000"
  by (auto simp: window_ends_def timedelta_days_def timestamp_add_def
           split: sum.splits if_splits)

lemma window_ends_in_range:
  assumes "windows_in_range d pre post"
  shows "window_ends d pre post = Inr (d - pre * 86400000000000, d + post * 86400000000000)"
proof -
  from assms have p: "\<bar>pre * 86400000000000\<bar> \<le> 9223372036854775807"
    and q: "\<bar>post * 86400000000000\<bar> \<le> 9223372036854775807"
    and a: "\<bar>d - pre * 86400000000000\<bar> \<le> 9223372036854775807"
    and b: "\<bar>d + post * 86400000000000\<bar> \<le> 9223372036854775807"
    by (simp_all add: windows_in_range_def nanosecond_range_def)
  from p have pre: "\<bar>pre\<bar> \<le> 999999999" by arith
  from q have post: "\<bar>post\<bar> \<le> 999999999" by arith
  have 1: "timedelta_days pre = Inr (pre * 86400000000000)"
    using pre by (simp add: timedelta_days_def)
  have 2: "timestamp_add d (- (pre * 86400000000000)) = Inr (d - pre * 86400000000000)"
    using p a by (simp add: timestamp_add_def count_limit_def)
  have 3: "timedelta_days post = Inr (post * 86400000000000)"
    using post by (simp add: timedelta_days_def)
  have 4: "timestamp_add d (post * 86400000000000) = Inr (d + post * 86400000000000)"
    using q b by (simp add: timestamp_add_def count_limit_def)
  show ?thesis by (simp add: window_ends_def 1 2 3 4)
qed

lemma collect_impacts_ok:
  "\<forall>ev\<in>set evs. ev_name ev \<noteq> None \<and> (\<exists>d. ev_date ev = Some d \<and> windows_in_range d pre post) \<Longrightarrow>
     \<exists>rs. collect_impacts self pre post evs acc = Inr rs"
proof (induction evs arbitrary: acc)
  case Nil
  then show ?case by simp
next
  case (Cons ev evs)
  then obtain d n where "ev_date ev = Some d" "ev_name ev = Some n" "windows_in_range d pre post"
    by auto
  then obtain r where "impact_of_event self pre post ev = Inr r"
    by (simp add: impact_of_event_def Let_def window_ends_in_range)
  with Cons show ?case by simp
qed

lemma event_impact_analysis_Inr:
  assumes "event_impact_analysis self events pre post = Inr rs"
  shows "\<exists>raw. collect_impacts self pre post events [] = Inr raw \<and> raw \<noteq> [] \<and>
           rs = sort_key event_date raw \<and> length raw = length events \<and>
           list_all2 (\<lambda>ev r. impact_of_event self pre post ev = Inr r) events raw"
proof -
  from assms obtain raw where raw: "collect_impacts self pre post events [] = Inr raw"
    and s: "sort_values_event_date raw = Inr rs"
    by (auto simp: event_impact_analysis_def split: sum.splits)
  from s have "raw \<noteq> []" "rs = sort_key event_date raw"
    by (auto simp: sort_values_event_date_def split: if_splits)
  moreover from collect_impacts_acc[OF raw] have "length raw = length events"
    "list_all2 (\<lambda>ev r. impact_of_event self pre post ev = Inr r) events raw" by auto
  ultimately show ?thesis using raw by blast
qed

lemma event_impact_analysis_member:
  assumes "event_impact_analysis self events pre post = Inr rs" "r \<in> set rs"
  shows "\<exists>ev\<in>set events. impact_of_event self pre post ev = Inr r"
proof -
  from event_impact_analysis_Inr[OF assms(1)] obtain raw where
    "rs = sort_key event_date raw"
    and l: "list_all2 (\<lambda>ev r. impact_of_event self pre post ev = Inr r) events raw" by blast
  with assms(2) have "r \<in> set raw" by simp
  then obtain i where "i < length raw" "raw ! i = r" by (auto simp: in_set_conv_nth)
  with l have "impact_of_event self pre post (events ! i) = Inr r" "i < length events"
    by (auto simp: list_all2_conv_all_nth)
  then show ?thesis by (metis nth_mem)
qed

section \<open>Log returns, grouping and means\<close>

lemma length_shift1: "length (shift1 xs) = length xs"
  by (simp add: shift1_def)

lemma length_log_return_values: "length (log_return_values cs) = length cs"
  by (simp add: log_return_values_def length_shift1)

lemma index_calculate_log_returns:
  "map fst (calculate_log_returns self) = index_of (price_data self)"
  by (simp add: calculate_log_returns_def index_of_def values_of_def length_log_return_values)

lemma length_filter_fst:
  "length (filter (\<lambda>(t, r). P t) xs) = length (filter P (map fst xs))"
  by (induction xs) auto

lemma set_unique: "set (unique xs) = set xs"
  by (induction xs rule: unique.induct) auto

lemma fold_upd:
  "fold (\<lambda>k m. m(k \<mapsto> f k)) ks m0 = (\<lambda>k. if k \<in> set ks then Some (f k) else m0 k)"
  by (induction ks arbitrary: m0) (auto simp: fun_eq_iff)

lemma event_summary_statistics_eq:
  "event_summary_statistics df ty =
     (if ty \<in> event_type ` set df
      then Some (summarize (filter (\<lambda>r. label_eq (event_type r) ty) df)) else None)"
  by (simp add: event_summary_statistics_def fold_upd set_unique)

lemma series_mean_skipna: "series_mean vs = series_mean (filter (\<lambda>v. \<not> isnan v) vs)"
  by (simp add: series_mean_def)

lemma series_mean_all_nan: "\<forall>v\<in>set vs. isnan v \<Longrightarrow> series_mean vs = NaN"
proof -
  assume "\<forall>v\<in>set vs. isnan v"
  then have "filter (\<lambda>v. \<not> isnan v) vs = []" by (simp add: filter_empty_conv)
  then show ?thesis by (simp add: series_mean_def)
qed

lemma frequency_range:
  assumes "sub \<noteq> []"
  shows "\<exists>q. vol_increase_frequency (summarize sub) = Fin q \<and> 0 \<le> q \<and> q \<le> 1"
proof -
  let ?k = "length (filter (\<lambda>r. fpos (volatility_change r)) sub)"
  have "?k \<le> length sub" by simp
  moreover have "0 < length sub" using assms by simp
  ultimately have "real ?k / real (length sub) \<le> 1" "0 \<le> real ?k / real (length sub)"
    by (simp_all add: divide_le_eq_1)
  moreover have "vol_increase_frequency (summarize sub) = Fin (real ?k / real (length sub))"
    using assms by (simp add: summarize_def)
  ultimately show ?thesis by blast
qed

section \<open>Operations over the store leave earlier objects alone\<close>

lemma keeps_refl: "keeps n s s"
  by (simp add: keeps_def)

lemma keeps_trans: "keeps n s s' \<Longrightarrow> keeps n s' s'' \<Longrightarrow> keeps n s s''"
  by (simp add: keeps_def)

lemma keeps_new: "n \<le> length s \<Longrightarrow> keeps n s (snd (new x s))"
  by (simp add: keeps_def new_def)

lemma fst_new: "fst (new x s) = length s"
  by (simp add: new_def)

lemma length_snd_new: "length (snd (new x s)) = Suc (length s)"
  by (simp add: new_def)

lemma keeps_update: "n \<le> a \<Longrightarrow> keeps n s (s[a := x])"
  by (simp add: keeps_def)

lemma keeps_ewma_step_st: "n \<le> v \<Longrightarrow> keeps n s (ewma_step_st lam q v i s)"
  by (simp add: ewma_step_st_def iloc_set_def keeps_update keeps_refl)

lemma keeps_ewma_fold: "n \<le> v \<Longrightarrow> keeps n s (fold (ewma_step_st lam q v) is s)"
proof (induction "is" arbitrary: s)
  case Nil
  show ?case by (simp add: keeps_refl)
next
  case (Cons i "is")
  have "keeps n s (ewma_step_st lam q v i s)" using Cons.prems by (rule keeps_ewma_step_st)
  moreover have "keeps n (ewma_step_st lam q v i s) (fold (ewma_step_st lam q v) is (ewma_step_st lam q v i s))"
    using Cons.prems by (rule Cons.IH)
  ultimately show ?case by (simp add: keeps_trans)
qed

lemma keeps_get_estimator_st:
  "keeps (length s) s (snd (get_estimator_st p lam tp clean s))"
proof (cases "series_at s p")
  case None
  then show ?thesis by (simp add: get_estimator_st_def keeps_refl)
next
  case (Some closes)
  obtain lr s1 where 1: "new (SeriesObj (zip (index_of closes) (log_return_values (values_of closes)))) s = (lr, s1)"
    by fastforce
  obtain sq s2 where 2: "new (SeriesObj (zip (index_of (the_series s1 lr))
                                     (map fsquare (values_of (the_series s1 lr))))) s1 = (sq, s2)"
    by fastforce
  obtain v s3 where 3: "new (SeriesObj (the_series s2 sq)) s2 = (v, s3)" by fastforce
  define s4 where "s4 = fold (ewma_step_st lam sq v) [1 ..< length (the_series s3 sq)] s3"
  obtain ro s5 where 5: "new (SeriesObj (zip (index_of (the_series s4 v))
                                     (map fsqrt (values_of (the_series s4 v))))) s4 = (ro, s5)"
    by fastforce
  have k1: "keeps (length s) s s1" using keeps_new[of "length s" s] 1 by (metis order_refl snd_conv)
  then have l1: "length s \<le> length s1" by (simp add: keeps_def)
  have k2: "keeps (length s) s1 s2" using keeps_new[OF l1] 2 by (metis snd_conv)
  then have l2: "length s \<le> length s2" using l1 by (simp add: keeps_def)
  have k3: "keeps (length s) s2 s3" using keeps_new[OF l2] 3 by (metis snd_conv)
  then have l3: "length s \<le> length s3" using l2 by (simp add: keeps_def)
  have v: "length s \<le> v" using 3 l2 by (simp add: new_def)
  have k4: "keeps (length s) s3 s4" unfolding s4_def using v by (rule keeps_ewma_fold)
  then have l4: "length s \<le> length s4" using l3 by (simp add: keeps_def)
  have k5: "keeps (length s) s4 s5" using keeps_new[OF l4] 5 by (metis snd_conv)
  then have l5: "length s \<le> length s5" using l4 by (simp add: keeps_def)
  have k05: "keeps (length s) s s5"
    using k1 k2 k3 k4 k5 by (blast intro: keeps_trans)
  show ?thesis
  proof (cases "math_sqrt tp")
    case (Inl e)
    then show ?thesis using Some 1 2 3 5 k05
      by (simp add: get_estimator_st_def s4_def)
  next
    case (Inr f)
    obtain res s6 where 6: "new (SeriesObj (zip (index_of (the_series s5 ro))
                                             (map (\<lambda>v. fmul v f) (values_of (the_series s5 ro))))) s5 = (res, s6)"
      by fastforce
    have k6: "keeps (length s) s5 s6" using keeps_new[OF l5] 6 by (metis snd_conv)
    then have l6: "length s \<le> length s6" using l5 by (simp add: keeps_def)
    obtain cl s7 where 7: "new (SeriesObj (dropna (the_series s6 res))) s6 = (cl, s7)" by fastforce
    have k7: "keeps (length s) s6 s7" using keeps_new[OF l6] 7 by (metis snd_conv)
    have "keeps (length s) s s6" "keeps (length s) s s7"
      using k05 k6 k7 by (blast intro: keeps_trans)+
    then show ?thesis using Some Inr 1 2 3 5 6 7
      by (simp add: get_estimator_st_def s4_def)
  qed
qed

lemma keeps_calculate_log_returns_st:
  "n \<le> length s \<Longrightarrow> keeps n s (snd (calculate_log_returns_st self s))"
  by (auto simp: calculate_log_returns_st_def keeps_refl new_def keeps_def split: option.splits)

lemma keeps_realized_volatility_window_st:
  assumes "n \<le> length s"
  shows "keeps n s (snd (realized_volatility_window_st self a b s))"
proof -
  obtain r s1 where c: "calculate_log_returns_st self s = (r, s1)" by fastforce
  have k1: "keeps n s s1" using keeps_calculate_log_returns_st[OF assms, of self] c by simp
  show ?thesis
  proof (cases r)
    case (Inl e)
    then show ?thesis using c k1 by (simp add: realized_volatility_window_st_def)
  next
    case (Inr lr)
    have "n \<le> length s1" using k1 assms by (simp add: keeps_def)
    then have "keeps n s1 (snd (new x s1))" for x by (rule keeps_new)
    then have "keeps n s (snd (new x s1))" for x using k1 by (blast intro: keeps_trans)
    then show ?thesis using c Inr
      by (simp add: realized_volatility_window_st_def Let_def split: prod.splits)
         (metis snd_conv)
  qed
qed

lemma keeps_impact_of_event_st:
  assumes "n \<le> length s"
  shows "keeps n s (snd (impact_of_event_st self pre post ev s))"
proof (cases "ev_date ev")
  case None
  then show ?thesis by (simp add: impact_of_event_st_def keeps_refl)
next
  case (Some d)
  show ?thesis
  proof (cases "window_ends d pre post")
    case (Inl e)
    then show ?thesis using Some by (simp add: impact_of_event_st_def keeps_refl)
  next
    case (Inr w)
    obtain a b where w: "w = (a, b)" by fastforce
    obtain r1 s1 where 1: "realized_volatility_window_st self a d s = (r1, s1)"
      by fastforce
    have k1: "keeps n s s1" using keeps_realized_volatility_window_st[OF assms, of self] 1
      by (metis snd_conv)
    then have l1: "n \<le> length s1" using assms by (simp add: keeps_def)
    obtain r2 s2 where 2: "realized_volatility_window_st self d b s1 = (r2, s2)"
      by fastforce
    have "keeps n s1 s2" using keeps_realized_volatility_window_st[OF l1, of self] 2
      by (metis snd_conv)
    then have k2: "keeps n s s2" using k1 by (blast intro: keeps_trans)
    show ?thesis using Some Inr w 1 2 k1 k2
      by (auto simp: impact_of_event_st_def Let_def split: sum.splits option.splits)
  qed
qed

lemma keeps_append_record: "n \<le> a \<Longrightarrow> keeps n s (append_record a r s)"
  by (simp add: append_record_def keeps_update)

lemma keeps_collect_impacts_st:
  "n \<le> length s \<Longrightarrow> n \<le> res \<Longrightarrow> keeps n s (snd (collect_impacts_st self pre post evs res s))"
proof (induction evs arbitrary: s)
  case Nil
  show ?case by (simp add: keeps_refl)
next
  case (Cons ev evs)
  obtain r s1 where 1: "impact_of_event_st self pre post ev s = (r, s1)" by fastforce
  have k1: "keeps n s s1" using keeps_impact_of_event_st[OF Cons.prems(1), of self pre post ev] 1
    by simp
  show ?case
  proof (cases r)
    case (Inl e)
    then show ?thesis using 1 k1 by simp
  next
    case (Inr x)
    have k2: "keeps n s1 (append_record res x s1)" using Cons.prems(2) by (rule keeps_append_record)
    have "n \<le> length (append_record res x s1)" using k1 Cons.prems(1)
      by (simp add: keeps_def append_record_def)
    from Cons.IH[OF this Cons.prems(2)]
    have "keeps n s (snd (collect_impacts_st self pre post evs res (append_record res x s1)))"
      using k1 k2 by (blast intro: keeps_trans)
    then show ?thesis using 1 Inr by simp
  qed
qed

lemma keeps_event_impact_analysis_st:
  "keeps (length s) s (snd (event_impact_analysis_st self events pre post s))"
proof (cases "events_at s events")
  case None
  then show ?thesis by (simp add: event_impact_analysis_st_def keeps_refl)
next
  case (Some evs)
  let ?s1 = "s @ [FrameObj []]"
  obtain r s2 where 2: "collect_impacts_st self pre post evs (length s) ?s1 = (r, s2)" by fastforce
  have "keeps (length s) s ?s1" by (simp add: keeps_def)
  moreover have "keeps (length s) ?s1 s2"
    using keeps_collect_impacts_st[of "length s" ?s1 "length s" self pre post evs] 2 by simp
  ultimately have k2: "keeps (length s) s s2" by (blast intro: keeps_trans)
  then have "length s \<le> length s2" by (simp add: keeps_def)
  then have "keeps (length s) s2 (snd (new x s2))" for x by (rule keeps_new)
  then have "keeps (length s) s (s2 @ [x])" for x using k2 
    by (metis keeps_trans new_def snd_conv)
  then show ?thesis using Some 2 k2
    by (auto simp: event_impact_analysis_st_def new_def split: option.splits sum.splits)
qed

lemma keeps_summary_set: "n \<le> a \<Longrightarrow> keeps n s (summary_set a ty g s)"
  by (simp add: summary_set_def keeps_update)

lemma keeps_summary_fold:
  "n \<le> a \<Longrightarrow> keeps n s (fold (\<lambda>ty st. summary_set a ty (g ty st) st) tys s)"
proof (induction tys arbitrary: s)
  case Nil
  show ?case by (simp add: keeps_refl)
next
  case (Cons ty tys)
  have "keeps n s (summary_set a ty (g ty s) s)" using Cons.prems by (rule keeps_summary_set)
  moreover have "keeps n (summary_set a ty (g ty s) s)
     (fold (\<lambda>ty st. summary_set a ty (g ty st) st) tys (summary_set a ty (g ty s) s))"
    using Cons.prems by (rule Cons.IH)
  ultimately show ?case by (simp add: keeps_trans)
qed

lemma keeps_event_summary_statistics_st:
  "keeps (length s) s (snd (event_summary_statistics_st self df s))"
proof (cases "frame_at s df")
  case None
  then show ?thesis by (simp add: event_summary_statistics_st_def keeps_refl)
next
  case (Some rows)
  let ?s1 = "s @ [SummaryObj Map.empty]"
  have "keeps (length s) s ?s1" by (simp add: keeps_def)
  moreover have "keeps (length s) ?s1
     (fold (\<lambda>ty st. summary_set (length s) ty
              (summarize (filter (\<lambda>r. label_eq (event_type r) ty) (the_frame st df))) st)
           (unique (map event_type rows)) ?s1)"
    by (rule keeps_summary_fold) simp
  ultimately show ?thesis using Some
    by (simp add: event_summary_statistics_st_def new_def Let_def keeps_trans)
qed

section \<open>The operations over the store compute what the functions compute\<close>

lemma index_of_zip: "length xs = length ys \<Longrightarrow> index_of (zip xs ys) = xs"
  by (simp add: index_of_def)

lemma values_of_zip: "length xs = length ys \<Longrightarrow> values_of (zip xs ys) = ys"
  by (simp add: values_of_def)

lemma zip_index_values: "zip (index_of xs) (values_of xs) = xs"
  by (simp add: index_of_def values_of_def zip_map_fst_snd)

lemma length_index_of: "length (index_of xs) = length xs"
  by (simp add: index_of_def)

lemma length_values_of: "length (values_of xs) = length xs"
  by (simp add: values_of_def)

lemma the_series_new: "the_series (s @ [SeriesObj x]) (length s) = x"
  by (simp add: the_series_def series_at_def)

lemma the_series_old: "a < length s \<Longrightarrow> the_series (s @ [x]) a = the_series s a"
  by (simp add: the_series_def series_at_def nth_append)

lemma the_series_update_same:
  "a < length s \<Longrightarrow> the_series (s[a := SeriesObj x]) a = x"
  by (simp add: the_series_def series_at_def)

lemma the_series_update_other:
  "a \<noteq> b \<Longrightarrow> the_series (s[a := x]) b = the_series s b"
  by (simp add: the_series_def series_at_def)

lemma ewma_step_st_refines:
  assumes "v < length s" "q \<noteq> v" "the_series s q = Q" "the_series s v = V"
  shows "ewma_step_st lam q v i s =
           s[v := SeriesObj (zip (index_of V) (ewma_step lam (values_of Q) i (values_of V)))]
         \<or> (ewma_step_st lam q v i s = s \<and> ewma_step lam (values_of Q) i (values_of V) = values_of V)"
  using assms by (simp add: ewma_step_st_def ewma_step_def iloc_set_def)

lemma ewma_step_st_series:
  assumes "v < length s" "q \<noteq> v" "the_series s q = Q" "the_series s v = V"
  shows "the_series (ewma_step_st lam q v i s) v =
           zip (index_of V) (ewma_step lam (values_of Q) i (values_of V))
       \<and> the_series (ewma_step_st lam q v i s) q = Q
       \<and> length (ewma_step_st lam q v i s) = length s"
  using ewma_step_st_refines[OF assms, of lam i] assms
  by (auto simp: the_series_update_same the_series_update_other zip_index_values)

lemma ewma_fold_st_series:
  assumes "v < length s" "q \<noteq> v" "the_series s q = Q" "the_series s v = V"
  shows "the_series (fold (ewma_step_st lam q v) is s) v =
           zip (index_of V) (fold (ewma_step lam (values_of Q)) is (values_of V))"
  using assms
proof (induction "is" arbitrary: s V)
  case Nil
  then show ?case by (simp add: zip_index_values)
next
  case (Cons i "is")
  let ?s = "ewma_step_st lam q v i s"
  let ?V = "zip (index_of V) (ewma_step lam (values_of Q) i (values_of V))"
  from ewma_step_st_series[OF Cons.prems, of lam i]
  have a: "the_series ?s v = ?V" "the_series ?s q = Q" "length ?s = length s" by simp_all
  have len: "length (index_of V) = length (ewma_step lam (values_of Q) i (values_of V))"
    by (simp add: length_ewma_step length_index_of length_values_of)
  have "the_series (fold (ewma_step_st lam q v) is ?s) v =
          zip (index_of ?V) (fold (ewma_step lam (values_of Q)) is (values_of ?V))"
    using Cons.prems(1,2) a by (intro Cons.IH) simp_all
  then show ?case by (simp add: index_of_zip[OF len] values_of_zip[OF len])
qed

lemma the_series_new2: "the_series (s @ [x, SeriesObj y]) (Suc (length s)) = y"
  using the_series_new[of "s @ [x]" y] by simp

lemma get_estimator_st_refines:
  assumes "series_at s p = Some pd"
  shows "case get_estimator_st p lam tp clean s of
           (Inl e, s') \<Rightarrow> get_estimator pd lam tp clean = Inl e
         | (Inr a, s') \<Rightarrow> get_estimator pd lam tp clean = Inr (the_series s' a)"
proof -
  let ?idx = "index_of pd"
  let ?lr = "log_return_values (values_of pd)"
  let ?sq = "squared_returns_of pd"
  define s1 where "s1 = s @ [SeriesObj (zip ?idx ?lr)]"
  define s2 where "s2 = s1 @ [SeriesObj (zip ?idx ?sq)]"
  define s3 where "s3 = s2 @ [SeriesObj (zip ?idx ?sq)]"
  let ?q = "Suc (length s)"
  let ?v = "Suc (Suc (length s))"
  have len1: "length s1 = ?q" and len2: "length s2 = ?v" and len3: "length s3 = Suc ?v"
    by (simp_all add: s1_def s2_def s3_def)
  have l1: "length ?idx = length ?lr"
    by (simp add: length_index_of length_values_of length_log_return_values)
  have l2: "length ?idx = length ?sq"
    by (simp add: squared_returns_of_def l1[symmetric])
  have s1lr: "the_series s1 (length s) = zip ?idx ?lr"
    unfolding s1_def by (rule the_series_new)
  have s2q: "the_series s2 ?q = zip ?idx ?sq"
    unfolding s2_def len1[symmetric] by (rule the_series_new)
  have q: "the_series s3 ?q = zip ?idx ?sq"
    unfolding s3_def using the_series_old[of ?q s2] s2q len2 by simp
  have v: "the_series s3 ?v = zip ?idx ?sq"
    unfolding s3_def len2[symmetric] by (rule the_series_new)
  define s4 where "s4 = fold (ewma_step_st lam ?q ?v) [1 ..< length ?sq] s3"
  have "the_series s4 ?v = zip (index_of (zip ?idx ?sq))
          (fold (ewma_step lam (values_of (zip ?idx ?sq))) [1 ..< length ?sq] (values_of (zip ?idx ?sq)))"
    unfolding s4_def
  proof (rule ewma_fold_st_series)
    show "?v < length s3" by (simp add: len3)
    show "?q \<noteq> ?v" by simp
    show "the_series s3 ?q = zip ?idx ?sq" by (rule q)
    show "the_series s3 ?v = zip ?idx ?sq" by (rule v)
  qed
  then have s4v: "the_series s4 ?v = zip ?idx (ewma_scan lam ?sq)"
    by (simp add: index_of_zip[OF l2] values_of_zip[OF l2] ewma_scan_def)
  have l3: "length ?idx = length (ewma_scan lam ?sq)"
    by (simp add: ewma_scan_def length_fold_ewma l2[symmetric])
  have step1: "new (SeriesObj (zip ?idx ?lr)) s = (length s, s1)"
    by (simp add: new_def s1_def)
  have step2: "new (SeriesObj (zip (index_of (the_series s1 (length s)))
                 (map fsquare (values_of (the_series s1 (length s)))))) s1 = (?q, s2)"
    by (simp add: new_def s1lr index_of_zip[OF l1] values_of_zip[OF l1] squared_returns_of_def
          s2_def len1)
  have step3: "new (SeriesObj (the_series s2 ?q)) s2 = (?v, s3)"
    by (simp add: new_def s2q s3_def len2)
  have lenq: "length (the_series s3 ?q) = length ?sq"
    by (simp add: q l2[symmetric])
  let ?roots = "zip ?idx (map fsqrt (ewma_scan lam ?sq))"
  define s5 where "s5 = s4 @ [SeriesObj ?roots]"
  have step5: "new (SeriesObj (zip (index_of (the_series s4 ?v))
                 (map fsqrt (values_of (the_series s4 ?v))))) s4 = (length s4, s5)"
    by (simp add: new_def s4v index_of_zip[OF l3] values_of_zip[OF l3] s5_def)
  have unfold: "get_estimator_st p lam tp clean s =
     (case math_sqrt tp of
        Inl e \<Rightarrow> (Inl e, s5)
      | Inr f \<Rightarrow>
          (let (result, s6) =
                 new (SeriesObj (zip (index_of (the_series s5 (length s4)))
                                     (map (\<lambda>v. fmul v f) (values_of (the_series s5 (length s4)))))) s5
           in if clean
              then (let (cleaned, s7) = new (SeriesObj (dropna (the_series s6 result))) s6
                    in (Inr cleaned, s7))
              else (Inr result, s6)))"
    unfolding get_estimator_st_def assms option.case
    by (simp only: Let_def prod.case step1 step2 step3 lenq s4_def[symmetric] step5)
  have l4: "length ?idx = length (map fsqrt (ewma_scan lam ?sq))" using l3 by simp
  have s5r: "the_series s5 (length s4) = ?roots"
    unfolding s5_def by (rule the_series_new)
  show ?thesis
  proof (cases "math_sqrt tp")
    case (Inl e)
    then show ?thesis by (simp add: unfold get_estimator_def)
  next
    case (Inr f)
    define res where "res = zip ?idx (map (\<lambda>v. fmul v f) (map fsqrt (ewma_scan lam ?sq)))"
    have step6: "new (SeriesObj (zip (index_of (the_series s5 (length s4)))
                   (map (\<lambda>v. fmul v f) (values_of (the_series s5 (length s4)))))) s5
                 = (length s5, s5 @ [SeriesObj res])"
      by (simp add: new_def s5r index_of_zip[OF l4] values_of_zip[OF l4] res_def del: map_map)
    have pure: "get_estimator pd lam tp clean = Inr (if clean then dropna res else res)"
      by (simp add: get_estimator_def Inr Let_def res_def)
    show ?thesis
      using pure
      by (simp only: unfold Inr sum.case step6 prod.case Let_def)
         (cases clean; simp add: new_def the_series_new the_series_new2)
  qed
qed

lemma keeps_series_at:
  assumes "keeps n s s'" "a < n" "n \<le> length s"
  shows "series_at s' a = series_at s a"
proof -
  from assms have "take n s' ! a = take n s ! a" "a < length s" "a < length s'"
    by (simp_all add: keeps_def)
  then show ?thesis using assms(2) by (simp add: series_at_def)
qed

lemma series_at_less: "series_at s a = Some x \<Longrightarrow> a < length s"
  by (simp add: series_at_def split: if_splits)

lemma calculate_log_returns_st_refines:
  assumes "series_at s (price_data_ref self) = Some pd"
  shows "calculate_log_returns_st self s =
           (Inr (length s),
            s @ [SeriesObj (calculate_log_returns \<lparr>price_data = pd, volatility = vs\<rparr>)])"
  using assms by (simp add: calculate_log_returns_st_def calculate_log_returns_def new_def)

lemma realized_volatility_window_st_refines:
  assumes "series_at s (price_data_ref self) = Some pd"
  shows "fst (realized_volatility_window_st self a b s) =
           Inr (realized_volatility_window \<lparr>price_data = pd, volatility = vs\<rparr> a b)"
  by (simp add: realized_volatility_window_st_def calculate_log_returns_st_refines[OF assms, of vs]
        realized_volatility_window_def new_def the_series_new the_series_new2 Let_def)

lemma realized_volatility_window_st_series:
  assumes "series_at s (price_data_ref self) = Some pd"
  shows "series_at (snd (realized_volatility_window_st self a b s)) (price_data_ref self) = Some pd"
proof -
  have "price_data_ref self < length s" using assms by (rule series_at_less)
  with keeps_realized_volatility_window_st[of "length s" s self a b] assms
  show ?thesis by (simp add: keeps_series_at)
qed

lemma impact_of_event_st_refines:
  assumes "series_at s (price_data_ref self) = Some pd"
  shows "fst (impact_of_event_st self pre post ev s) =
           impact_of_event \<lparr>price_data = pd, volatility = vs\<rparr> pre post ev"
proof (cases "ev_date ev")
  case None
  then show ?thesis by (simp add: impact_of_event_st_def impact_of_event_def)
next
  case (Some d)
  show ?thesis
  proof (cases "window_ends d pre post")
    case (Inl e)
    then show ?thesis using Some by (simp add: impact_of_event_st_def impact_of_event_def)
  next
    case (Inr w)
    obtain a b where w: "w = (a, b)" by fastforce
    obtain r1 s1 where 1: "realized_volatility_window_st self a d s = (r1, s1)"
      by fastforce
    have r1: "r1 = Inr (realized_volatility_window \<lparr>price_data = pd, volatility = vs\<rparr> a d)"
      using realized_volatility_window_st_refines[OF assms, of a d vs] 1 by simp
    have p1: "series_at s1 (price_data_ref self) = Some pd"
      using realized_volatility_window_st_series[OF assms, of a d] 1 by simp
    obtain r2 s2 where 2: "realized_volatility_window_st self d b s1 = (r2, s2)"
      by fastforce
    have r2: "r2 = Inr (realized_volatility_window \<lparr>price_data = pd, volatility = vs\<rparr> d b)"
      using realized_volatility_window_st_refines[OF p1, of d b vs] 2 by simp
    show ?thesis using Some Inr w 1 2 r1 r2
      by (simp add: impact_of_event_st_def impact_of_event_def Let_def split: option.splits)
  qed
qed

lemma impact_of_event_st_series:
  assumes "series_at s (price_data_ref self) = Some pd"
  shows "series_at (snd (impact_of_event_st self pre post ev s)) (price_data_ref self) = Some pd"
proof -
  have "price_data_ref self < length s" using assms by (rule series_at_less)
  with keeps_impact_of_event_st[of "length s" s self pre post ev] assms
  show ?thesis by (simp add: keeps_series_at)
qed

lemma frame_at_less: "frame_at s a = Some x \<Longrightarrow> a < length s"
  by (simp add: frame_at_def split: if_splits)

lemma keeps_frame_at:
  assumes "keeps n s s'" "a < n" "n \<le> length s"
  shows "frame_at s' a = frame_at s a"
proof -
  from assms have "take n s' ! a = take n s ! a" "a < length s" "a < length s'"
    by (simp_all add: keeps_def)
  then show ?thesis using assms(2) by (simp add: frame_at_def)
qed

lemma impact_of_event_st_frame:
  assumes "frame_at s res = Some acc"
  shows "frame_at (snd (impact_of_event_st self pre post ev s)) res = Some acc"
proof -
  have "res < length s" using assms by (rule frame_at_less)
  with keeps_impact_of_event_st[of "length s" s self pre post ev] assms
  show ?thesis by (simp add: keeps_frame_at)
qed

lemma append_record_frame:
  "frame_at s res = Some acc \<Longrightarrow> frame_at (append_record res r s) res = Some (acc @ [r])"
  by (simp add: append_record_def frame_at_def the_frame_def split: if_splits)

lemma append_record_series:
  "frame_at s res = Some acc \<Longrightarrow> series_at (append_record res r s) p = series_at s p"
  by (auto simp: append_record_def frame_at_def series_at_def nth_list_update split: if_splits obj.splits)

lemma collect_impacts_st_refines:
  assumes "series_at s (price_data_ref self) = Some pd" "frame_at s res = Some acc"
  shows "case collect_impacts_st self pre post evs res s of
           (Some e, s') \<Rightarrow> collect_impacts \<lparr>price_data = pd, volatility = vs\<rparr> pre post evs acc = Inl e
         | (None, s') \<Rightarrow> collect_impacts \<lparr>price_data = pd, volatility = vs\<rparr> pre post evs acc
                          = Inr (the_frame s' res)"
  using assms
proof (induction evs arbitrary: s acc)
  case Nil
  then show ?case by (simp add: the_frame_def)
next
  case (Cons ev evs)
  obtain r s1 where 1: "impact_of_event_st self pre post ev s = (r, s1)" by fastforce
  have r: "r = impact_of_event \<lparr>price_data = pd, volatility = vs\<rparr> pre post ev"
    using impact_of_event_st_refines[OF Cons.prems(1), of pre post ev vs] 1 by simp
  have p1: "series_at s1 (price_data_ref self) = Some pd"
    using impact_of_event_st_series[OF Cons.prems(1), of pre post ev] 1 by simp
  have f1: "frame_at s1 res = Some acc"
    using impact_of_event_st_frame[OF Cons.prems(2), of self pre post ev] 1 by simp
  show ?case
  proof (cases r)
    case (Inl e)
    then show ?thesis using 1 r by simp
  next
    case (Inr x)
    have "series_at (append_record res x s1) (price_data_ref self) = Some pd"
      using append_record_series[OF f1] p1 by simp
    moreover have "frame_at (append_record res x s1) res = Some (acc @ [x])"
      using f1 by (rule append_record_frame)
    ultimately have "case collect_impacts_st self pre post evs res (append_record res x s1) of
           (Some e, s') \<Rightarrow> collect_impacts \<lparr>price_data = pd, volatility = vs\<rparr> pre post evs (acc @ [x]) = Inl e
         | (None, s') \<Rightarrow> collect_impacts \<lparr>price_data = pd, volatility = vs\<rparr> pre post evs (acc @ [x])
                          = Inr (the_frame s' res)"
      by (rule Cons.IH)
    then show ?thesis using 1 Inr r[symmetric] by (auto split: prod.splits option.splits)
  qed
qed

lemma the_frame_new: "the_frame (s @ [FrameObj x]) (length s) = x"
  by (simp add: the_frame_def frame_at_def)

lemma event_impact_analysis_st_refines:
  assumes "series_at s (price_data_ref self) = Some pd" "events_at s events = Some evs"
  shows "case event_impact_analysis_st self events pre post s of
           (Inl e, s') \<Rightarrow> event_impact_analysis \<lparr>price_data = pd, volatility = vs\<rparr> evs pre post = Inl e
         | (Inr a, s') \<Rightarrow> event_impact_analysis \<lparr>price_data = pd, volatility = vs\<rparr> evs pre post
                           = Inr (the_frame s' a)"
proof -
  let ?s1 = "s @ [FrameObj []]"
  have p: "series_at ?s1 (price_data_ref self) = Some pd"
    using assms(1) by (simp add: series_at_def nth_append split: if_splits)
  have f: "frame_at ?s1 (length s) = Some []" by (simp add: frame_at_def)
  obtain r s2 where 2: "collect_impacts_st self pre post evs (length s) ?s1 = (r, s2)" by fastforce
  from collect_impacts_st_refines[OF p f, where pre=pre and post=post and evs=evs and vs=vs] 2
  have c: "case r of Some e \<Rightarrow> collect_impacts \<lparr>price_data = pd, volatility = vs\<rparr> pre post evs [] = Inl e
         | None \<Rightarrow> collect_impacts \<lparr>price_data = pd, volatility = vs\<rparr> pre post evs []
                          = Inr (the_frame s2 (length s))" by simp
  show ?thesis using assms(2) 2 c
    by (auto simp: event_impact_analysis_st_def event_impact_analysis_def new_def the_frame_new
          split: option.splits sum.splits)
qed

lemma summary_fold_refines:
  assumes "a < length s" "df \<noteq> a" "the_frame s df = rows" "summary_at s a = Some m"
  shows "summary_at (fold (\<lambda>ty st. summary_set a ty
                       (summarize (filter (\<lambda>r. label_eq (event_type r) ty) (the_frame st df))) st) tys s) a
         = Some (fold (\<lambda>ty summary. summary(ty \<mapsto> summarize (filter (\<lambda>r. label_eq (event_type r) ty) rows)))
                      tys m)"
  using assms
proof (induction tys arbitrary: s m)
  case Nil
  then show ?case by simp
next
  case (Cons ty tys)
  let ?g = "summarize (filter (\<lambda>r. label_eq (event_type r) ty) rows)"
  let ?s = "summary_set a ty ?g s"
  have "a < length ?s" using Cons.prems(1) by (simp add: summary_set_def)
  moreover have "the_frame ?s df = rows" using Cons.prems(2,3)
    by (auto simp: summary_set_def the_frame_def frame_at_def split: if_splits)
  moreover have "summary_at ?s a = Some (m(ty \<mapsto> ?g))" using Cons.prems(1,4)
    by (simp add: summary_set_def summary_at_def the_summary_def)
  ultimately have "summary_at (fold (\<lambda>ty st. summary_set a ty
                       (summarize (filter (\<lambda>r. label_eq (event_type r) ty) (the_frame st df))) st) tys ?s) a
         = Some (fold (\<lambda>ty summary. summary(ty \<mapsto> summarize (filter (\<lambda>r. label_eq (event_type r) ty) rows)))
                      tys (m(ty \<mapsto> ?g)))"
    using Cons.prems(2) by (intro Cons.IH)
  then show ?case unfolding fold_Cons o_apply Cons.prems(3) .
qed

lemma event_summary_statistics_st_refines:
  assumes "frame_at s df = Some rows"
  shows "\<exists>a s'. event_summary_statistics_st self df s = (Inr a, s') \<and>
           summary_at s' a = Some (event_summary_statistics rows)"
proof -
  let ?s1 = "s @ [SummaryObj Map.empty]"
  have df: "df < length s" using assms by (rule frame_at_less)
  have "summary_at (fold (\<lambda>ty st. summary_set (length s) ty
                       (summarize (filter (\<lambda>r. label_eq (event_type r) ty) (the_frame st df))) st)
                    (unique (map event_type rows)) ?s1) (length s)
         = Some (fold (\<lambda>ty summary. summary(ty \<mapsto> summarize (filter (\<lambda>r. label_eq (event_type r) ty) rows)))
                      (unique (map event_type rows)) Map.empty)"
  proof (rule summary_fold_refines)
    show "length s < length ?s1" by simp
    show "df \<noteq> length s" using df by simp
    show "the_frame ?s1 df = rows" using assms df by (simp add: the_frame_def frame_at_def nth_append)
    show "summary_at ?s1 (length s) = Some Map.empty" by (simp add: summary_at_def)
  qed
  then show ?thesis using assms
    by (simp add: event_summary_statistics_st_def event_summary_statistics_def new_def Let_def)
qed

section \<open>The EWMA recurrence\<close>

lemma length_squared_returns_of: "length (squared_returns_of pd) = length pd"
  by (simp add: squared_returns_of_def length_log_return_values values_of_def)

lemma squared_returns_gap_example:
  "squared_returns_of [(0, Fin 1), (1, Fin 1), (2, Fin (- 1)), (3, Fin 1), (4, Fin (exp 1))]
     = [NaN, Fin 0, NaN, NaN, Fin 1]"
  by (simp add: squared_returns_of_def log_return_values_def values_of_def shift1_def fsquare_def)

lemma double_limit_252: "252 < double_limit"
  by (simp add: double_limit_def)

lemma upt_1_5: "[1 ..< 5] = [1, 2, 3, 4::nat]"
  by (simp add: upt_rec)

lemma ewma_scan_gap_example:
  "ewma_scan (Fin (1 / 2)) [NaN, Fin 0, NaN, NaN, Fin 1] = [NaN, Fin 0, NaN, NaN, Fin 1]"
  by (simp add: ewma_scan_def ewma_step_def upt_1_5 fsub_def)

text \<open>
  C1, as the code has it. For every price series, every \<open>lambda_param\<close> and every row
  \<open>t\<close>: the running variance at \<open>t\<close> is
  \<open>lambda_param * var[t-1] + (1 - lambda_param) * squared_return[t]\<close> when \<open>t > 0\<close> and
  neither \<open>squared_return[t-1]\<close> nor \<open>var[t-1]\<close> is NaN; in every other case the update
  is skipped and the slot keeps its own squared return \<open>squared_return[t]\<close>, the value
  it was given by the copy. So the variance at the first valid squared return is that
  squared return, and the same happens again after every gap. The estimator returns the
  square roots of these variances times the square root of \<open>trading_periods\<close>, for a
  \<open>trading_periods\<close> that is not negative and converts to a double.
\<close>

theorem ewma_scan_recurrence:
  assumes "t < length prices"
  shows "ewma_scan lambda_param (squared_returns_of prices) ! t =
           (if 0 < t \<and> \<not> isnan (squared_returns_of prices ! (t - 1))
                   \<and> \<not> isnan (ewma_scan lambda_param (squared_returns_of prices) ! (t - 1))
            then fadd (fmul lambda_param (ewma_scan lambda_param (squared_returns_of prices) ! (t - 1)))
                      (fmul (fsub (Fin 1) lambda_param) (squared_returns_of prices ! t))
            else squared_returns_of prices ! t)
       \<and> ((\<forall>j<t. isnan (squared_returns_of prices ! j)) \<longrightarrow>
            ewma_scan lambda_param (squared_returns_of prices) ! t = squared_returns_of prices ! t)
       \<and> (0 \<le> trading_periods \<and> trading_periods < double_limit \<longrightarrow>
            get_estimator prices lambda_param trading_periods False =
              Inr (zip (index_of prices)
                       (map (\<lambda>v. fmul (fsqrt v) (Fin (sqrt (real_of_int trading_periods))))
                            (ewma_scan lambda_param (squared_returns_of prices)))))"
proof -
  let ?sq = "squared_returns_of prices"
  let ?var = "ewma_scan lambda_param ?sq"
  have t: "t < length ?sq" using assms by (simp add: length_squared_returns_of)
  have rec: "ewma_rec lambda_param ?sq ?var t" using t by (rule ewma_scan_rec)
  have seed: "?var ! t = ?sq ! t" if "\<forall>j<t. isnan (?sq ! j)"
  proof (cases "0 < t")
    case True
    then have "isnan (?sq ! (t - 1))" using that by simp
    with rec show ?thesis by (simp add: ewma_rec_def)
  next
    case False
    with rec show ?thesis by (simp add: ewma_rec_def)
  qed
  have ge: "get_estimator prices lambda_param trading_periods False =
              Inr (zip (index_of prices)
                       (map (\<lambda>v. fmul (fsqrt v) (Fin (sqrt (real_of_int trading_periods)))) ?var))"
    if "0 \<le> trading_periods \<and> trading_periods < double_limit"
    using that by (simp add: get_estimator_def math_sqrt_def Let_def comp_def)
  show ?thesis using rec seed ge unfolding ewma_rec_def by blast
qed

text \<open>
  The recurrence at row 4 of the closes \<open>1, 1, -1, 1, e\<close> with \<open>lambda_param = 0.5\<close>:
  the squared returns are \<open>NaN, 0, NaN, NaN, 1\<close> and so are the variances.
\<close>

theorem ewma_scan_recurrence_witness:
  "(4::nat) < length [(0::int, Fin 1), (1, Fin 1), (2, Fin (- 1)), (3, Fin 1), (4, Fin (exp 1))]
   \<and> ewma_scan (Fin (1 / 2))
        (squared_returns_of [(0, Fin 1), (1, Fin 1), (2, Fin (- 1)), (3, Fin 1), (4, Fin (exp 1))]) ! 4
      = Fin 1
   \<and> get_estimator [(0, Fin 1), (1, Fin 1), (2, Fin (- 1)), (3, Fin 1), (4, Fin (exp 1))]
        (Fin (1 / 2)) 252 False
      = Inr [(0, NaN), (1, Fin 0), (2, NaN), (3, NaN), (4, Fin (sqrt 252))]"
  using ewma_scan_recurrence[of 4 "[(0, Fin 1), (1, Fin 1), (2, Fin (- 1)), (3, Fin 1), (4, Fin (exp 1))]"
          "Fin (1 / 2)" 252] double_limit_252
  by (simp add: squared_returns_gap_example ewma_scan_gap_example index_of_def)

text \<open>
  Against C1 as it is worded (a missing predecessor leaves the missing marker in the
  slot, which is not seeded again from the current squared return): in the same series
  the squared return and the variance at row 3 are both NaN, and the variance at row 4
  is not NaN but the squared return of row 4.
\<close>

theorem ewma_scan_reseeds_after_gap:
  "isnan (squared_returns_of [(0, Fin 1), (1, Fin 1), (2, Fin (- 1)), (3, Fin 1), (4, Fin (exp 1))] ! 3)
   \<and> isnan (ewma_scan (Fin (1 / 2))
        (squared_returns_of [(0, Fin 1), (1, Fin 1), (2, Fin (- 1)), (3, Fin 1), (4, Fin (exp 1))]) ! 3)
   \<and> ewma_scan (Fin (1 / 2))
        (squared_returns_of [(0, Fin 1), (1, Fin 1), (2, Fin (- 1)), (3, Fin 1), (4, Fin (exp 1))]) ! 4
      = Fin 1
   \<and> squared_returns_of [(0, Fin 1), (1, Fin 1), (2, Fin (- 1)), (3, Fin 1), (4, Fin (exp 1))] ! 4
      = Fin 1"
  by (simp add: squared_returns_gap_example ewma_scan_gap_example)

section \<open>Sorting and the number of records\<close>

lemma event_impact_analysis_sorted:
  assumes "event_impact_analysis self events pre post = Inr rs"
  shows "sorted (map event_date rs) \<and> length rs = length events"
  using event_impact_analysis_Inr[OF assms] by auto

lemma event_impact_analysis_succeeds:
  assumes "events \<noteq> []"
    "\<forall>ev\<in>set events. ev_name ev \<noteq> None \<and> (\<exists>d. ev_date ev = Some d \<and> windows_in_range d pre post)"
  shows "\<exists>rs. event_impact_analysis self events pre post = Inr rs"
proof -
  from collect_impacts_ok[OF assms(2)] obtain raw where
    raw: "collect_impacts self pre post events [] = Inr raw" by blast
  from collect_impacts_acc[OF raw] have "length raw = length events" by auto
  with assms(1) have "raw \<noteq> []" by auto
  with raw show ?thesis by (simp add: event_impact_analysis_def sort_values_event_date_def)
qed

text \<open>
  C2 asks that every sequence of events, the empty one included, gives records sorted by
  date, as many as there are events. For a sequence that is not empty the two lemmas
  above show it. For the empty sequence no record is appended, the frame built from the
  empty list has no column \<open>event_date\<close>, and sorting by that column raises
  \<open>KeyError\<close>: the call does not return the empty sequence of records.
\<close>

theorem event_impact_analysis_empty:
  "event_impact_analysis self [] pre_days post_days = Inl (KeyError ''event_date'')"
  by (simp add: event_impact_analysis_def sort_values_event_date_def)

section \<open>Parameters are not validated\<close>

text \<open>
  C3, as the code has it. \<open>get_estimator\<close> does not check \<open>lambda_param\<close>: for every
  float \<open>lambda_param\<close>, inside the interval (0,1) or not, the scan runs, and the call
  returns a series whenever \<open>trading_periods\<close> is not negative and converts to a
  double. Whether the call fails, and with which error, is the same for every two values
  of \<open>lambda_param\<close>.
\<close>

theorem get_estimator_lambda_unchecked:
  "(0 \<le> trading_periods \<and> trading_periods < double_limit \<longrightarrow>
      (\<exists>r. get_estimator prices lambda_param trading_periods clean = Inr r))
   \<and> (get_estimator prices lambda_param trading_periods clean = Inl e \<longleftrightarrow>
        get_estimator prices other_lambda trading_periods clean = Inl e)"
  by (auto simp: get_estimator_def math_sqrt_def Let_def split: sum.splits if_splits)

lemma upt_1_3: "[1 ..< 3] = [1, 2::nat]"
  by (simp add: upt_rec)

text \<open>
  Against C3 as it is worded (a \<open>lambda_param\<close> outside (0,1) fails with
  \<open>InvalidParameterError\<close>): with \<open>lambda_param = 2\<close> and the closes \<open>1, e, e\<close> the
  squared returns are \<open>NaN, 1, 0\<close>, the variances \<open>NaN, 1, 2\<close>, and the call returns.
\<close>

theorem get_estimator_lambda_two:
  "get_estimator [(0, Fin 1), (1, Fin (exp 1)), (2, Fin (exp 1))] (Fin 2) 252 False
     = Inr [(0, NaN), (1, Fin (sqrt 252)), (2, Fin (sqrt 2 * sqrt 252))]"
  using double_limit_252
  by (simp add: get_estimator_def squared_returns_of_def log_return_values_def values_of_def
        shift1_def fsquare_def ewma_scan_def ewma_step_def upt_1_3 fsub_def math_sqrt_def
        index_of_def Let_def)

text \<open>The same call as an instance of the theorem.\<close>

theorem get_estimator_lambda_unchecked_witness:
  "(0::int) \<le> 252 \<and> 252 < double_limit \<and>
   (\<exists>r. get_estimator [(0, Fin 1), (1, Fin (exp 1)), (2, Fin (exp 1))] (Fin 2) 252 False = Inr r)"
  using get_estimator_lambda_unchecked[of 252 "[(0, Fin 1), (1, Fin (exp 1)), (2, Fin (exp 1))]" "Fin 2" False]
    double_limit_252
  by simp

lemma empty_window:
  assumes "end_date < start_date"
  shows "realized_volatility_window self start_date end_date = NaN"
proof -
  have "filter (\<lambda>(t, r). start_date \<le> t \<and> t \<le> end_date) (calculate_log_returns self) = []"
    using assms by (auto simp: filter_empty_conv)
  then show ?thesis by (simp add: realized_volatility_window_def)
qed

lemma impact_of_event_windows:
  assumes "impact_of_event self pre post ev = Inr r"
  shows "pre_volatility r =
           realized_volatility_window self (event_date r - pre * 86400000000000) (event_date r)
       \<and> post_volatility r =
           realized_volatility_window self (event_date r) (event_date r + post * 86400000000000)"
proof -
  from assms obtain d a b where d: "ev_date ev = Some d" and w: "window_ends d pre post = Inr (a, b)"
    by (auto simp: impact_of_event_def split: option.splits sum.splits)
  from window_ends_Inr[OF w] have ab: "a = d - pre * 86400000000000" "b = d + post * 86400000000000"
    by simp_all
  show ?thesis using assms d w ab
    by (auto simp: impact_of_event_def Let_def split: option.splits)
qed

lemma impact_of_event_negative_window:
  assumes "impact_of_event self pre post ev = Inr r"
  shows "(pre < 0 \<longrightarrow> pre_volatility r = NaN) \<and> (post < 0 \<longrightarrow> post_volatility r = NaN)"
proof -
  have "realized_volatility_window self (event_date r - pre * 86400000000000) (event_date r) = NaN"
    if "pre < 0"
    using that by (intro empty_window) simp
  moreover have
    "realized_volatility_window self (event_date r) (event_date r + post * 86400000000000) = NaN"
    if "post < 0"
    using that by (intro empty_window) simp
  ultimately show ?thesis using impact_of_event_windows[OF assms] by simp
qed

text \<open>
  C4, as the code has it. \<open>event_impact_analysis\<close> does not check that
  \<open>pre_window_days\<close> and \<open>post_window_days\<close> are positive: for every two numbers of
  days, zero and negative ones included, and every sequence of events that is not empty,
  whose events have a name and a date, and whose durations and window ends are in the
  range of the date library, it returns one record for each event. A negative number
  of days puts the start of the window after its end, so that the window is empty and
  the volatility on that side is NaN.
\<close>

theorem event_impact_analysis_window_unchecked:
  assumes "events \<noteq> []"
    "\<forall>ev\<in>set events. ev_name ev \<noteq> None \<and>
        (\<exists>d. ev_date ev = Some d \<and> windows_in_range d pre_days post_days)"
  shows "\<exists>rs. event_impact_analysis self events pre_days post_days = Inr rs
           \<and> length rs = length events
           \<and> (pre_days < 0 \<longrightarrow> (\<forall>r\<in>set rs. pre_volatility r = NaN))
           \<and> (post_days < 0 \<longrightarrow> (\<forall>r\<in>set rs. post_volatility r = NaN))"
proof -
  from event_impact_analysis_succeeds[OF assms] obtain rs where
    rs: "event_impact_analysis self events pre_days post_days = Inr rs" by blast
  have "length rs = length events" using event_impact_analysis_sorted[OF rs] by simp
  moreover have "(pre_days < 0 \<longrightarrow> pre_volatility r = NaN) \<and> (post_days < 0 \<longrightarrow> post_volatility r = NaN)"
    if "r \<in> set rs" for r
    using event_impact_analysis_member[OF rs that] impact_of_event_negative_window by blast
  ultimately show ?thesis using rs by blast
qed

text \<open>
  Against C4 as it is worded (window days that are not positive fail with
  \<open>InvalidParameterError\<close>): four daily closes of 1, one event on the third day,
  \<open>pre_window_days = 0\<close> and \<open>post_window_days = -1\<close>. The window before the event
  holds one row, the window after it holds none, and the call returns one record.
\<close>

theorem event_impact_analysis_nonpositive_windows:
  "event_impact_analysis
     \<lparr>price_data = [(0, Fin 1), (86400000000000, Fin 1), (172800000000000, Fin 1),
                    (259200000000000, Fin 1)],
      volatility = []\<rparr>
     [\<lparr>ev_date = Some 172800000000000, ev_name = Some ''CPI'', ev_type = None\<rparr>] 0 (- 1)
   = Inr [\<lparr>event_date = 172800000000000, event_name = ''CPI'', event_type = Str ''unknown'',
           pre_volatility = NaN, post_volatility = NaN, volatility_change = NaN,
           volatility_change_pct = NaN, pre_window_days = 0, post_window_days = - 1\<rparr>]"
  by (simp add: event_impact_analysis_def sort_values_event_date_def impact_of_event_def
        window_ends_def timedelta_days_def timestamp_add_def count_limit_def
        realized_volatility_window_def calculate_log_returns_def
        log_return_values_def values_of_def shift1_def index_of_def Let_def fsub_def)

text \<open>The same call as an instance of the theorem.\<close>

theorem event_impact_analysis_window_unchecked_witness:
  "\<exists>rs. event_impact_analysis
           \<lparr>price_data = [(0, Fin 1), (86400000000000, Fin 1), (172800000000000, Fin 1),
                          (259200000000000, Fin 1)],
            volatility = []\<rparr>
           [\<lparr>ev_date = Some 172800000000000, ev_name = Some ''CPI'', ev_type = None\<rparr>] 0 (- 1)
         = Inr rs
       \<and> length rs = 1"
proof -
  have h1: "[\<lparr>ev_date = Some 172800000000000, ev_name = Some ''CPI'', ev_type = None\<rparr>] \<noteq> []"
    by simp
  have h2: "\<forall>ev\<in>set [\<lparr>ev_date = Some 172800000000000, ev_name = Some ''CPI'', ev_type = None\<rparr>].
         ev_name ev \<noteq> None \<and> (\<exists>d. ev_date ev = Some d \<and> windows_in_range d 0 (- 1))"
    by (simp add: windows_in_range_def nanosecond_range_def)
  from event_impact_analysis_window_unchecked[OF h1 h2, of
      "\<lparr>price_data = [(0, Fin 1), (86400000000000, Fin 1), (172800000000000, Fin 1),
                          (259200000000000, Fin 1)], volatility = []\<rparr>"]
  show ?thesis by auto
qed

section \<open>Short windows\<close>

lemma series_std_few_valid:
  assumes "length (filter (\<lambda>v. \<not> isnan v) vs) < 2"
  shows "series_std vs = NaN"
proof -
  from assms have "length (filter (\<lambda>v. \<not> isnan v) vs) \<le> 1" by simp
  then show ?thesis by (simp add: series_std_def Let_def)
qed

lemma valid_values_of_window:
  "length (filter (\<lambda>v. \<not> isnan v) (values_of (filter (\<lambda>(t, r). a \<le> t \<and> t \<le> b) xs)))
     = length (filter (\<lambda>(t, r). a \<le> t \<and> t \<le> b \<and> \<not> isnan r) xs)"
  by (induction xs) (auto simp: values_of_def)

text \<open>
  C5. For every price series and every two dates: when fewer than two log-return points,
  that is rows of the log-return series with a return that is not NaN, have their
  timestamp in the closed window from \<open>start_date\<close> to \<open>end_date\<close>,
  \<open>realized_volatility_window\<close> returns NaN; it is a value, not an exception. The
  row of the first close has no return and does not count; a window with fewer than two
  rows is a case of this.
\<close>

theorem realized_volatility_window_short:
  assumes "length (filter (\<lambda>(t, r). start_date \<le> t \<and> t \<le> end_date \<and> \<not> isnan r)
                     (calculate_log_returns self)) < 2"
  shows "realized_volatility_window self start_date end_date = NaN"
proof -
  let ?window = "filter (\<lambda>(t, r). start_date \<le> t \<and> t \<le> end_date) (calculate_log_returns self)"
  have "length (filter (\<lambda>v. \<not> isnan v) (values_of ?window)) < 2"
    using assms by (simp add: valid_values_of_window)
  then have "series_std (values_of ?window) = NaN" by (rule series_std_few_valid)
  then show ?thesis by (simp add: realized_volatility_window_def Let_def)
qed

lemma log_returns_three_closes:
  "calculate_log_returns
     \<lparr>price_data = [(0, Fin 1), (86400000000000, Fin 2), (172800000000000, Fin 3)], volatility = []\<rparr>
   = [(0, NaN), (86400000000000, Fin (ln 2)), (172800000000000, Fin (ln (3 / 2)))]"
  by (simp add: calculate_log_returns_def log_return_values_def values_of_def shift1_def
        index_of_def)

text \<open>
  Three daily closes \<open>1, 2, 3\<close> and the window of the first two days: it holds two
  rows and one return, \<open>ln 2\<close>.
\<close>

theorem realized_volatility_window_short_witness:
  "length (filter (\<lambda>(t, r). 0 \<le> t \<and> t \<le> 86400000000000 \<and> \<not> isnan r)
       [(0::int, NaN), (86400000000000, Fin (ln 2)), (172800000000000, Fin (ln (3 / 2)))]) < 2
   \<and> realized_volatility_window
        \<lparr>price_data = [(0, Fin 1), (86400000000000, Fin 2), (172800000000000, Fin 3)], volatility = []\<rparr>
        0 86400000000000 = NaN"
proof -
  have h: "length (filter (\<lambda>(t, r). 0 \<le> t \<and> t \<le> 86400000000000 \<and> \<not> isnan r)
       (calculate_log_returns
          \<lparr>price_data = [(0, Fin 1), (86400000000000, Fin 2), (172800000000000, Fin 3)],
           volatility = []\<rparr>)) < 2"
    by (simp add: log_returns_three_closes)
  from h realized_volatility_window_short[OF h] show ?thesis
    by (simp add: log_returns_three_closes)
qed

section \<open>The percentage change\<close>

lemma constant_price_analysis:
  "event_impact_analysis
     \<lparr>price_data = [(0, Fin 1), (86400000000000, Fin 1), (172800000000000, Fin 1),
                    (259200000000000, Fin 1)],
      volatility = []\<rparr>
     [\<lparr>ev_date = Some 172800000000000, ev_name = Some ''CPI'', ev_type = None\<rparr>] 2 1
   = Inr [\<lparr>event_date = 172800000000000, event_name = ''CPI'', event_type = Str ''unknown'',
           pre_volatility = Fin 0, post_volatility = Fin 0, volatility_change = Fin 0,
           volatility_change_pct = NaN, pre_window_days = 2, post_window_days = 1\<rparr>]"
  by (simp add: event_impact_analysis_def sort_values_event_date_def impact_of_event_def
        window_ends_def timedelta_days_def timestamp_add_def count_limit_def
        realized_volatility_window_def calculate_log_returns_def
        log_return_values_def values_of_def shift1_def fsquare_def index_of_def Let_def
        series_std_def fsum_def fsub_def)

text \<open>
  C6. In every record that \<open>event_impact_analysis\<close> returns: when the volatility before
  the event is exactly 0 the percentage change is NaN, and when it is not 0 the
  percentage change is \<open>(post - pre) / pre * 100\<close> in float arithmetic.
\<close>

theorem volatility_change_pct_guarded:
  assumes "event_impact_analysis self events pre_days post_days = Inr rs"
  shows "\<forall>r\<in>set rs.
     (pre_volatility r = Fin 0 \<longrightarrow> volatility_change_pct r = NaN) \<and>
     (pre_volatility r \<noteq> Fin 0 \<longrightarrow>
        volatility_change_pct r =
          fmul (fdiv (fsub (post_volatility r) (pre_volatility r)) (pre_volatility r)) (Fin 100))"
proof
  fix r assume "r \<in> set rs"
  from event_impact_analysis_member[OF assms this] obtain ev where
    "impact_of_event self pre_days post_days ev = Inr r" by blast
  then show "(pre_volatility r = Fin 0 \<longrightarrow> volatility_change_pct r = NaN) \<and>
     (pre_volatility r \<noteq> Fin 0 \<longrightarrow>
        volatility_change_pct r =
          fmul (fdiv (fsub (post_volatility r) (pre_volatility r)) (pre_volatility r)) (Fin 100))"
    by (auto simp: impact_of_event_def Let_def split: option.splits sum.splits prod.splits)
qed

text \<open>
  Four daily closes of 1 and an event on the third day, two days before and one day
  after: the returns in both windows are 0, so is the volatility before the event, and
  the percentage change of the record is NaN.
\<close>

theorem volatility_change_pct_guarded_witness:
  "event_impact_analysis
     \<lparr>price_data = [(0, Fin 1), (86400000000000, Fin 1), (172800000000000, Fin 1),
                    (259200000000000, Fin 1)],
      volatility = []\<rparr>
     [\<lparr>ev_date = Some 172800000000000, ev_name = Some ''CPI'', ev_type = None\<rparr>] 2 1
   = Inr [\<lparr>event_date = 172800000000000, event_name = ''CPI'', event_type = Str ''unknown'',
           pre_volatility = Fin 0, post_volatility = Fin 0, volatility_change = Fin 0,
           volatility_change_pct = NaN, pre_window_days = 2, post_window_days = 1\<rparr>]
   \<and> pre_volatility \<lparr>event_date = 172800000000000, event_name = ''CPI'', event_type = Str ''unknown'',
           pre_volatility = Fin 0, post_volatility = Fin 0, volatility_change = Fin 0,
           volatility_change_pct = NaN, pre_window_days = 2, post_window_days = 1\<rparr> = Fin 0
   \<and> volatility_change_pct \<lparr>event_date = 172800000000000, event_name = ''CPI'', event_type = Str ''unknown'',
           pre_volatility = Fin 0, post_volatility = Fin 0, volatility_change = Fin 0,
           volatility_change_pct = NaN, pre_window_days = 2, post_window_days = 1\<rparr> = NaN"
  using constant_price_analysis volatility_change_pct_guarded[OF constant_price_analysis]
  by simp

section \<open>The volatility series is not read\<close>

text \<open>
  C7. Two analyzers constructed on the same price series and on any two volatility
  series give the same result from \<open>realized_volatility_window\<close> and the same result
  from \<open>event_impact_analysis\<close>, for all dates, events and window parameters.
\<close>

theorem volatility_series_noninterference:
  "realized_volatility_window (init_analyzer prices v1) start_date end_date
     = realized_volatility_window (init_analyzer prices v2) start_date end_date
   \<and> event_impact_analysis (init_analyzer prices v1) events pre_days post_days
     = event_impact_analysis (init_analyzer prices v2) events pre_days post_days"
proof -
  have lr: "calculate_log_returns (init_analyzer prices v1) = calculate_log_returns (init_analyzer prices v2)"
    by (simp add: calculate_log_returns_def init_analyzer_def)
  have rv: "realized_volatility_window (init_analyzer prices v1) a b
              = realized_volatility_window (init_analyzer prices v2) a b" for a b
    by (simp add: realized_volatility_window_def lr)
  have io: "impact_of_event (init_analyzer prices v1) pre_days post_days ev
              = impact_of_event (init_analyzer prices v2) pre_days post_days ev" for ev
    by (simp add: impact_of_event_def Let_def rv split: option.splits sum.splits prod.splits)
  have "collect_impacts (init_analyzer prices v1) pre_days post_days events acc
          = collect_impacts (init_analyzer prices v2) pre_days post_days events acc" for acc
    by (induction events arbitrary: acc) (simp_all add: io split: sum.splits)
  then show ?thesis by (simp add: rv event_impact_analysis_def)
qed

section \<open>The window parameters in the records\<close>

text \<open>
  C10. Every record that \<open>event_impact_analysis\<close> returns carries, next to the seven
  fields of an event impact record, the fields \<open>pre_window_days\<close> and
  \<open>post_window_days\<close>, and their values are the two parameters of the call.
\<close>

theorem records_carry_window_days:
  assumes "event_impact_analysis self events pre_days post_days = Inr rs"
  shows "\<forall>r\<in>set rs. pre_window_days r = pre_days \<and> post_window_days r = post_days"
proof
  fix r assume "r \<in> set rs"
  from event_impact_analysis_member[OF assms this] obtain ev where
    "impact_of_event self pre_days post_days ev = Inr r" by blast
  then show "pre_window_days r = pre_days \<and> post_window_days r = post_days"
    by (auto simp: impact_of_event_def Let_def split: option.splits sum.splits prod.splits)
qed

lemma two_events_analysis:
  "event_impact_analysis
     \<lparr>price_data = [(0, Fin 1), (86400000000000, Fin 1), (172800000000000, Fin 1),
                    (259200000000000, Fin 1)],
      volatility = []\<rparr>
     [\<lparr>ev_date = Some 172800000000000, ev_name = Some ''FOMC'', ev_type = Some (Str ''monetary_policy'')\<rparr>,
      \<lparr>ev_date = Some 86400000000000, ev_name = Some ''CPI'', ev_type = None\<rparr>] 1 2
   = Inr [\<lparr>event_date = 86400000000000, event_name = ''CPI'', event_type = Str ''unknown'',
           pre_volatility = NaN, post_volatility = Fin 0, volatility_change = NaN,
           volatility_change_pct = NaN, pre_window_days = 1, post_window_days = 2\<rparr>,
          \<lparr>event_date = 172800000000000, event_name = ''FOMC'', event_type = Str ''monetary_policy'',
           pre_volatility = Fin 0, post_volatility = Fin 0, volatility_change = Fin 0,
           volatility_change_pct = NaN, pre_window_days = 1, post_window_days = 2\<rparr>]"
  by (simp add: event_impact_analysis_def sort_values_event_date_def impact_of_event_def
        window_ends_def timedelta_days_def timestamp_add_def count_limit_def
        realized_volatility_window_def calculate_log_returns_def
        log_return_values_def values_of_def shift1_def fsquare_def index_of_def Let_def
        series_std_def fsum_def fsub_def)

text \<open>
  Two events given in descending order of date, one day before and two days after: both
  records carry \<open>1\<close> and \<open>2\<close>.
\<close>

theorem records_carry_window_days_witness:
  "event_impact_analysis
     \<lparr>price_data = [(0, Fin 1), (86400000000000, Fin 1), (172800000000000, Fin 1),
                    (259200000000000, Fin 1)],
      volatility = []\<rparr>
     [\<lparr>ev_date = Some 172800000000000, ev_name = Some ''FOMC'', ev_type = Some (Str ''monetary_policy'')\<rparr>,
      \<lparr>ev_date = Some 86400000000000, ev_name = Some ''CPI'', ev_type = None\<rparr>] 1 2
   = Inr [\<lparr>event_date = 86400000000000, event_name = ''CPI'', event_type = Str ''unknown'',
           pre_volatility = NaN, post_volatility = Fin 0, volatility_change = NaN,
           volatility_change_pct = NaN, pre_window_days = 1, post_window_days = 2\<rparr>,
          \<lparr>event_date = 172800000000000, event_name = ''FOMC'', event_type = Str ''monetary_policy'',
           pre_volatility = Fin 0, post_volatility = Fin 0, volatility_change = Fin 0,
           volatility_change_pct = NaN, pre_window_days = 1, post_window_days = 2\<rparr>]
   \<and> pre_window_days \<lparr>event_date = 86400000000000, event_name = ''CPI'', event_type = Str ''unknown'',
           pre_volatility = NaN, post_volatility = Fin 0, volatility_change = NaN,
           volatility_change_pct = NaN, pre_window_days = 1, post_window_days = 2\<rparr> = 1
   \<and> post_window_days \<lparr>event_date = 172800000000000, event_name = ''FOMC'', event_type = Str ''monetary_policy'',
           pre_volatility = Fin 0, post_volatility = Fin 0, volatility_change = Fin 0,
           volatility_change_pct = NaN, pre_window_days = 1, post_window_days = 2\<rparr> = 2"
  using two_events_analysis records_carry_window_days[OF two_events_analysis]
  by simp

section \<open>Summary statistics by event type\<close>

lemma series_mean_ignores_missing: "series_mean vs = mean_ignoring_missing vs"
proof (cases "list_all isnan vs")
  case True
  then have "filter (\<lambda>v. \<not> isnan v) vs = []"
    by (simp add: filter_empty_conv list_all_iff)
  with True show ?thesis by (simp add: series_mean_def mean_ignoring_missing_def)
next
  case False
  then have "filter (\<lambda>v. \<not> isnan v) vs \<noteq> []"
    by (simp add: filter_empty_conv list_all_iff)
  with False show ?thesis by (simp add: series_mean_def mean_ignoring_missing_def Let_def)
qed

lemma mean_all_missing: "list_all isnan vs \<Longrightarrow> mean_ignoring_missing vs = NaN"
  by (simp add: mean_ignoring_missing_def)

lemma label_eq_Str: "label_eq x (Str a) = (x = Str a)"
  by (cases x) simp_all

lemma label_eq_PyNone: "label_eq x PyNone = False"
  by (cases x) simp_all

text \<open>
  The summary has one group for each value of \<open>event_type\<close> that occurs in the
  records, and no other group. In the group of a type that is a string the count is the
  number of its records, the frequency of increases is a finite value between 0 and 1,
  and each of the four means is the mean of the values that are not NaN, or NaN when all
  the values of the group are NaN.
\<close>

lemma event_summary_statistics_string_groups:
  "dom (event_summary_statistics df) = event_type ` set df
   \<and> (\<forall>name g. event_summary_statistics df (Str name) = Some g \<longrightarrow>
         count g = length (filter (\<lambda>r. event_type r = Str name) df)
       \<and> 0 < count g
       \<and> (\<exists>q. vol_increase_frequency g = Fin q \<and> 0 \<le> q \<and> q \<le> 1)
       \<and> avg_pre_vol g =
           mean_ignoring_missing (map pre_volatility (filter (\<lambda>r. event_type r = Str name) df))
       \<and> avg_post_vol g =
           mean_ignoring_missing (map post_volatility (filter (\<lambda>r. event_type r = Str name) df))
       \<and> avg_vol_change g =
           mean_ignoring_missing (map volatility_change (filter (\<lambda>r. event_type r = Str name) df))
       \<and> avg_vol_change_pct g =
           mean_ignoring_missing
             (map volatility_change_pct (filter (\<lambda>r. event_type r = Str name) df)))"
proof (intro conjI allI impI)
  show "dom (event_summary_statistics df) = event_type ` set df"
    by (auto simp: dom_def event_summary_statistics_eq)
next
  fix name g
  assume a: "event_summary_statistics df (Str name) = Some g"
  let ?grp = "filter (\<lambda>r. event_type r = Str name) df"
  from a have ty: "Str name \<in> event_type ` set df" and g: "g = summarize ?grp"
    by (auto simp: event_summary_statistics_eq label_eq_Str split: if_splits)
  from ty have ne: "?grp \<noteq> []" by (auto simp: filter_empty_conv)
  show "count g = length ?grp" by (simp add: g summarize_def)
  show "0 < count g" using ne by (simp add: g summarize_def)
  show "\<exists>q. vol_increase_frequency g = Fin q \<and> 0 \<le> q \<and> q \<le> 1"
    unfolding g using ne by (rule frequency_range)
  show "avg_pre_vol g = mean_ignoring_missing (map pre_volatility ?grp)"
    by (simp add: g summarize_def series_mean_ignores_missing)
  show "avg_post_vol g = mean_ignoring_missing (map post_volatility ?grp)"
    by (simp add: g summarize_def series_mean_ignores_missing)
  show "avg_vol_change g = mean_ignoring_missing (map volatility_change ?grp)"
    by (simp add: g summarize_def series_mean_ignores_missing)
  show "avg_vol_change_pct g = mean_ignoring_missing (map volatility_change_pct ?grp)"
    by (simp add: g summarize_def series_mean_ignores_missing)
qed

text \<open>
  When \<open>None\<close> occurs as an event type it is a key of the summary, and its group is
  empty, since no row compares equal to \<open>None\<close>: the count is 0, the means are NaN and
  the frequency is \<open>0 / 0\<close>, which is NaN.
\<close>

lemma event_summary_statistics_none_group:
  assumes "PyNone \<in> event_type ` set df"
  shows "event_summary_statistics df PyNone =
           Some \<lparr>count = 0, avg_pre_vol = NaN, avg_post_vol = NaN, avg_vol_change = NaN,
                 avg_vol_change_pct = NaN, vol_increase_frequency = NaN\<rparr>"
  using assms
  by (simp add: event_summary_statistics_eq label_eq_PyNone summarize_def series_mean_def)

text \<open>
  An event whose dictionary has the key \<open>type\<close> with the value \<open>None\<close>, on four daily
  closes of 1: \<open>get\<close> returns the \<open>None\<close> and the record has it as its type.
\<close>

lemma none_type_analysis:
  "event_impact_analysis
     \<lparr>price_data = [(0, Fin 1), (86400000000000, Fin 1), (172800000000000, Fin 1),
                    (259200000000000, Fin 1)],
      volatility = []\<rparr>
     [\<lparr>ev_date = Some 172800000000000, ev_name = Some ''CPI'', ev_type = Some PyNone\<rparr>] 2 1
   = Inr [\<lparr>event_date = 172800000000000, event_name = ''CPI'', event_type = PyNone,
           pre_volatility = Fin 0, post_volatility = Fin 0, volatility_change = Fin 0,
           volatility_change_pct = NaN, pre_window_days = 2, post_window_days = 1\<rparr>]"
  by (simp add: event_impact_analysis_def sort_values_event_date_def impact_of_event_def
        window_ends_def timedelta_days_def timestamp_add_def count_limit_def
        realized_volatility_window_def calculate_log_returns_def
        log_return_values_def values_of_def shift1_def fsquare_def index_of_def Let_def
        series_std_def fsum_def fsub_def)

text \<open>
  C8 asks that every group of the summary has a frequency of increases between 0 and 1.
  For the records of the call above, one record whose event type is \<open>None\<close>, the
  summary has the one key \<open>None\<close>, and its group has the count 0 and the frequency
  NaN, which is not between 0 and 1.
\<close>

theorem event_summary_statistics_none_label:
  "dom (event_summary_statistics
     [\<lparr>event_date = 172800000000000, event_name = ''CPI'', event_type = PyNone,
       pre_volatility = Fin 0, post_volatility = Fin 0, volatility_change = Fin 0,
       volatility_change_pct = NaN, pre_window_days = 2, post_window_days = 1\<rparr>]) = {PyNone}
   \<and> event_summary_statistics
     [\<lparr>event_date = 172800000000000, event_name = ''CPI'', event_type = PyNone,
       pre_volatility = Fin 0, post_volatility = Fin 0, volatility_change = Fin 0,
       volatility_change_pct = NaN, pre_window_days = 2, post_window_days = 1\<rparr>] PyNone
     = Some \<lparr>count = 0, avg_pre_vol = NaN, avg_post_vol = NaN, avg_vol_change = NaN,
             avg_vol_change_pct = NaN, vol_increase_frequency = NaN\<rparr>"
  by (auto simp: dom_def event_summary_statistics_eq label_eq_PyNone summarize_def series_mean_def
           split: if_splits)

section \<open>No operation writes to an object of its caller\<close>

text \<open>
  A run over the store: the closes \<open>1, e, e\<close> at address 0 and \<open>lambda_param = 0.5\<close>.
  The log returns go to address 1, their squares to address 2 and the copy to address 3;
  the scan overwrites row 2 of the copy with \<open>0.5 * 1 + 0.5 * 0\<close>, and the closes and
  the squared returns are as they were.
\<close>

lemma get_estimator_st_example:
  "take 4 (snd (get_estimator_st 0 (Fin (1 / 2)) 252 False
             [SeriesObj [(0, Fin 1), (1, Fin (exp 1)), (2, Fin (exp 1))]]))
   = [SeriesObj [(0, Fin 1), (1, Fin (exp 1)), (2, Fin (exp 1))],
      SeriesObj [(0, NaN), (1, Fin 1), (2, Fin 0)],
      SeriesObj [(0, NaN), (1, Fin 1), (2, Fin 0)],
      SeriesObj [(0, NaN), (1, Fin 1), (2, Fin (1 / 2))]]"
  by (simp add: get_estimator_st_def series_at_def new_def the_series_def index_of_def
        values_of_def log_return_values_def shift1_def fsquare_def upt_1_3 ewma_step_st_def
        iloc_set_def fsub_def math_sqrt_def Let_def)

text \<open>
  C9. Each of \<open>get_estimator\<close>, \<open>calculate_log_returns\<close>,
  \<open>realized_volatility_window\<close>, \<open>event_impact_analysis\<close> and
  \<open>event_summary_statistics\<close>, started in any store and on any arguments, ends in a
  store whose objects at the addresses of the starting store are the objects of the
  starting store: the price series, the volatility series, the events and the records of
  the caller are unchanged, whether the operation returns or fails. The writes of the
  scan go to the copy of the squared returns, which the operation created itself.
\<close>

theorem operations_preserve_caller_objects:
  "take (length s) (snd (get_estimator_st prices_ref lambda_param trading_periods clean s)) = s
   \<and> take (length s) (snd (calculate_log_returns_st self s)) = s
   \<and> take (length s) (snd (realized_volatility_window_st self start_date end_date s)) = s
   \<and> take (length s) (snd (event_impact_analysis_st self events_ref pre_days post_days s)) = s
   \<and> take (length s) (snd (event_summary_statistics_st self df_ref s)) = s"
  using keeps_get_estimator_st[of s prices_ref lambda_param trading_periods clean]
    keeps_calculate_log_returns_st[of "length s" s self]
    keeps_realized_volatility_window_st[of "length s" s self start_date end_date]
    keeps_event_impact_analysis_st[of s self events_ref pre_days post_days]
    keeps_event_summary_statistics_st[of s self df_ref]
  by (simp add: keeps_def)

end
